theory Spec2Isabelle
  imports Complex_Main
begin

section \<open>Numbers, errors and tables\<close>

text \<open>
  The Python floats of the program (seconds, IoU values, ratios) are modelled by exact
  rationals: every finite value the code computes is the rational it denotes, and
  floating-point rounding error is left out. Python's unbounded integers are \<open>int\<close>.
  Every exception the code can raise is a value of \<open>py_error\<close>, and a function that can
  raise returns \<open>py_error + 'a\<close>.
\<close>

datatype py_error =
  KeyError | IndexError | ValueError | TypeError | ZeroDivisionError
  | AssertionError | UnboundLocalError | OverflowError

text \<open>\<open>round(x, 0)\<close> rounds half to even; \<open>int(x)\<close> truncates towards zero.\<close>

definition py_round :: "rat \<Rightarrow> int" where
  "py_round x =
     (let f = \<lfloor>x\<rfloor>; d = x - of_int f
      in if d < 1 / 2 then f else if 1 / 2 < d then f + 1
         else if even f then f else f + 1)"

definition py_int :: "rat \<Rightarrow> int" where
  "py_int x = (if 0 \<le> x then \<lfloor>x\<rfloor> else \<lceil>x\<rceil>)"

text \<open>\<open>round(x, n)\<close>: scale by \<open>10 ^ n\<close>, round half to even, scale back.\<close>

definition round_ndigits :: "nat \<Rightarrow> rat \<Rightarrow> rat" where
  "round_ndigits n x = of_int (py_round (x * 10 ^ n)) / 10 ^ n"

text \<open>One row of an annotation table (the Kaleidoscope format).\<close>

record annotation =
  FOLDER :: string
  IN_FILE :: string
  CLIP_LENGTH :: rat
  CHANNEL :: int
  OFFSET :: rat
  DURATION :: rat
  SAMPLE_RATE :: int
  MANUAL_ID :: string

text \<open>
  One row of a statistics table. \<open>matrix_IoU_Scores\<close> fills the columns without
  \<open>TRUE NEGATIVE\<close>, \<open>UNION\<close> and \<open>Global IoU\<close>; \<open>clip_general\<close> fills all of them.
  A column a row does not have is \<open>None\<close>.
\<close>

record clip_stats =
  stats_FOLDER :: string
  stats_IN_FILE :: string
  stats_MANUAL_ID :: string
  TRUE_POSITIVE :: rat
  FALSE_POSITIVE :: rat
  FALSE_NEGATIVE :: rat
  TRUE_NEGATIVE :: "rat option"
  UNION_COL :: "rat option"
  PRECISION :: rat
  RECALL :: rat
  F1 :: rat
  Global_IoU :: "rat option"

section \<open>The best-fit matcher: \<open>matrix_IoU_Scores\<close>\<close>

text \<open>
  A two-dimensional array is the list of its rows. \<open>np.max\<close> along an axis of size zero
  raises \<open>ValueError\<close>; \<open>max_list\<close> is the reduction on a non-empty row.
\<close>

definition max_list :: "rat list \<Rightarrow> rat" where
  "max_list xs = fold max (tl xs) (hd xs)"

definition column :: "nat \<Rightarrow> rat list list \<Rightarrow> rat list" where
  "column j M = map (\<lambda>row. row ! j) M"

definition ncols :: "rat list list \<Rightarrow> nat" where
  "ncols M = (case M of [] \<Rightarrow> 0 | row # _ \<Rightarrow> length row)"

text \<open>\<open>automated_label_best_fits = np.max(IoU_Matrix, axis=1)\<close>\<close>

definition automated_label_best_fits :: "rat list list \<Rightarrow> rat list" where
  "automated_label_best_fits M = map max_list M"

text \<open>\<open>max_val_per_column = np.max(IoU_Matrix, axis=0)\<close>\<close>

definition max_val_per_column :: "rat list list \<Rightarrow> rat list" where
  "max_val_per_column M = map (\<lambda>j. max_list (column j M)) [0..<ncols M]"

text \<open>
  The three ratios of \<open>matrix_IoU_Scores\<close>. The counts are Python integers and the
  rounded ratios Python floats, so a zero denominator raises \<open>ZeroDivisionError\<close>,
  which the function catches, setting all three to 0.
\<close>

definition iou_ratios :: "nat \<Rightarrow> nat \<Rightarrow> nat \<Rightarrow> rat \<times> rat \<times> rat" where
  "iou_ratios tp fn fp =
     (if tp + fn = 0 then (0, 0, 0)
      else let recall = round_ndigits 4 (of_nat tp / of_nat (tp + fn))
      in if tp + fp = 0 then (0, 0, 0)
      else let precision = round_ndigits 4 (of_nat tp / of_nat (tp + fp))
      in if recall + precision = 0 then (0, 0, 0)
      else (precision, recall,
            round_ndigits 4 (2 * (recall * precision) / (recall + precision))))"

text \<open>
  \<open>matrix_IoU_Scores(IoU_Matrix, manual_df, threshold)\<close>. The assertion on the threshold
  comes first; \<open>manual_df["MANUAL ID"][0]\<close> raises \<open>KeyError\<close> on a table without
  rows; a matrix without rows or without columns makes one of the two \<open>np.max\<close>
  reductions raise \<open>ValueError\<close>.
\<close>

definition matrix_IoU_Scores ::
  "rat list list \<Rightarrow> annotation list \<Rightarrow> rat \<Rightarrow> py_error + clip_stats" where
  "matrix_IoU_Scores IoU_Matrix manual_df threshold =
     (if \<not> (0 < threshold \<and> threshold < 1) then Inl AssertionError
      else case manual_df of
        [] \<Rightarrow> Inl KeyError
      | first # _ \<Rightarrow>
          if IoU_Matrix = [] \<or> ncols IoU_Matrix = 0 then Inl ValueError
          else
            let best = automated_label_best_fits IoU_Matrix;
                tp_count = length (filter (\<lambda>v. threshold \<le> v) best);
                fn_count = length (filter (\<lambda>v. v < threshold) best);
                fp_count = length (filter (\<lambda>v. v < threshold) (max_val_per_column IoU_Matrix));
                (precision, recall, f1) = iou_ratios tp_count fn_count fp_count
            in Inr \<lparr>stats_FOLDER = FOLDER first, stats_IN_FILE = IN_FILE first,
                    stats_MANUAL_ID = MANUAL_ID first,
                    TRUE_POSITIVE = of_nat tp_count, FALSE_POSITIVE = of_nat fp_count,
                    FALSE_NEGATIVE = of_nat fn_count,
                    TRUE_NEGATIVE = None, UNION_COL = None,
                    PRECISION = precision, RECALL = recall, F1 = f1,
                    Global_IoU = None\<rparr>)"

text \<open>A row of an annotation table, written in the column order of the format.\<close>

definition mk_annotation ::
  "string \<Rightarrow> string \<Rightarrow> rat \<Rightarrow> rat \<Rightarrow> rat \<Rightarrow> int \<Rightarrow> string \<Rightarrow> annotation" where
  "mk_annotation folder file clip_length offset duration sr label =
     \<lparr>FOLDER = folder, IN_FILE = file, CLIP_LENGTH = clip_length, CHANNEL = 0,
      OFFSET = offset, DURATION = duration, SAMPLE_RATE = sr, MANUAL_ID = label\<rparr>"

section \<open>Rasterising intervals and the IoU matrix: \<open>clip_IoU\<close>\<close>

text \<open>
  A NumPy array of floats is a list of rationals. A slice \<open>arr[start:stop]\<close> follows
  Python's rules: a negative bound counts from the end, and both bounds are clamped to
  the array. \<open>slice_index n i\<close> is the position the bound \<open>i\<close> denotes in an array of
  length \<open>n\<close>.
\<close>

definition slice_index :: "nat \<Rightarrow> int \<Rightarrow> nat" where
  "slice_index n i = (if i < 0 then nat (max 0 (int n + i)) else min n (nat i))"

text \<open>\<open>arr[start:stop] = 1\<close>\<close>

definition set_slice :: "rat list \<Rightarrow> int \<Rightarrow> int \<Rightarrow> rat list" where
  "set_slice arr start stop =
     (let lo = slice_index (length arr) start; hi = slice_index (length arr) stop
      in map (\<lambda>i. if lo \<le> i \<and> i < hi then 1 else arr ! i) [0..<length arr])"

text \<open>\<open>arr[start:stop]\<close>\<close>

definition get_slice :: "rat list \<Rightarrow> int \<Rightarrow> int \<Rightarrow> rat list" where
  "get_slice arr start stop =
     (let lo = slice_index (length arr) start; hi = slice_index (length arr) stop
      in take (hi - lo) (drop lo arr))"

text \<open>
  The two bounds every rasterising loop of the program computes for a row:
  \<open>minval = int(round(OFFSET * rate, 0))\<close> and
  \<open>maxval = int(round((OFFSET + DURATION) * rate, 0))\<close>.
\<close>

definition minval :: "rat \<Rightarrow> annotation \<Rightarrow> int" where
  "minval rate a = py_round (OFFSET a * rate)"

definition maxval :: "rat \<Rightarrow> annotation \<Rightarrow> int" where
  "maxval rate a = py_round ((OFFSET a + DURATION a) * rate)"

text \<open>
  One row of \<open>bot_arr\<close> or \<open>human_arr\<close> in \<open>clip_IoU\<close>: zeros of the clip's length in
  samples, with the samples of one annotation set to 1.
\<close>

definition label_row :: "nat \<Rightarrow> int \<Rightarrow> annotation \<Rightarrow> rat list" where
  "label_row n sr a = set_slice (replicate n 0) (minval (of_int sr) a) (maxval (of_int sr) a)"

text \<open>An entry of \<open>np.matmul(human_arr, bot_arr.transpose())\<close>.\<close>

definition dot :: "rat list \<Rightarrow> rat list \<Rightarrow> rat" where
  "dot xs ys = sum_list (map (\<lambda>(x, y). x * y) (zip xs ys))"

text \<open>\<open>np.sum(np.logical_or(human_arr[i], bot_arr[j]))\<close>\<close>

definition logical_or_sum :: "rat list \<Rightarrow> rat list \<Rightarrow> nat" where
  "logical_or_sum xs ys = length (filter (\<lambda>(x, y). x \<noteq> 0 \<or> y \<noteq> 0) (zip xs ys))"

text \<open>
  The loop body of \<open>clip_IoU\<close> for one pair: a zero intersection is left alone, any
  other is divided by the size of the union and rounded to four decimals.
\<close>

definition IoU_entry :: "rat list \<Rightarrow> rat list \<Rightarrow> rat" where
  "IoU_entry h b =
     (let raw = dot h b
      in if raw = 0 then 0 else round_ndigits 4 (raw / of_nat (logical_or_sum h b)))"

text \<open>
  \<open>clip_IoU(automated_df, manual_df)\<close>. The clip length and the sample rate are read
  from the first automated row (\<open>IndexError\<close> when there is none); \<open>np.zeros\<close> raises
  \<open>ValueError\<close> on a negative length. The values are finite, so the final
  \<open>np.nan_to_num\<close> changes nothing.
\<close>

definition clip_IoU :: "annotation list \<Rightarrow> annotation list \<Rightarrow> py_error + rat list list" where
  "clip_IoU automated_df manual_df =
     (case automated_df of
        [] \<Rightarrow> Inl IndexError
      | first # _ \<Rightarrow>
          let duration = CLIP_LENGTH first;
              sr = SAMPLE_RATE first;
              n = py_int (duration * of_int sr)
          in if n < 0 then Inl ValueError
             else
               let bot_arr = map (label_row (nat n) sr) automated_df;
                   human_arr = map (label_row (nat n) sr) manual_df
               in Inr (map (\<lambda>h. map (\<lambda>b. IoU_entry h b) bot_arr) human_arr))"

text \<open>
  The \<open>IoU\<close> branch of the per-clip step of \<open>automated_labeling_statistics\<close>:
  \<open>clip_IoU\<close>, then \<open>matrix_IoU_Scores\<close> on its matrix.
\<close>

definition clip_IoU_stats ::
  "annotation list \<Rightarrow> annotation list \<Rightarrow> rat \<Rightarrow> py_error + clip_stats" where
  "clip_IoU_stats clip_automated_df clip_manual_df threshold =
     (case clip_IoU clip_automated_df clip_manual_df of
        Inl e \<Rightarrow> Inl e
      | Inr IoU_Matrix \<Rightarrow> matrix_IoU_Scores IoU_Matrix clip_manual_df threshold)"

text \<open>
  The same entry computed from the bounds of the two slices alone, without the arrays:
  the intersection of two index ranges and the size of their union. The verification
  shows \<open>IoU_entry\<close> on two rows equal to it.
\<close>

definition iou_closed :: "nat \<Rightarrow> int \<Rightarrow> annotation \<Rightarrow> annotation \<Rightarrow> rat" where
  "iou_closed n sr h b =
    (let lh = slice_index n (minval (of_int sr) h); hh = slice_index n (maxval (of_int sr) h);
         lb = slice_index n (minval (of_int sr) b); hb = slice_index n (maxval (of_int sr) b);
         inter = min hh hb - max lh lb
     in if inter = 0 then 0
        else round_ndigits 4 (of_nat inter / of_nat ((hh - lh) + (hb - lb) - inter)))"

text \<open>
  An annotation covers a sample of the clip when the slice \<open>clip_IoU\<close> sets for it is
  not empty.
\<close>

definition covers_sample :: "annotation list \<Rightarrow> annotation \<Rightarrow> bool" where
  "covers_sample automated_df a =
     (case automated_df of
        [] \<Rightarrow> False
      | first # _ \<Rightarrow>
          let sr = SAMPLE_RATE first;
              n = nat (py_int (CLIP_LENGTH first * of_int sr))
          in slice_index n (minval (of_int sr) a) < slice_index n (maxval (of_int sr) a))"

section \<open>General clip statistics: \<open>clip_general\<close>\<close>

text \<open>
  Both timelines of \<open>clip_general\<close>: zeros of the clip's length in samples, with the
  slice of every row of the table set to 1, one row after the other.
\<close>

definition raster_all :: "nat \<Rightarrow> rat \<Rightarrow> annotation list \<Rightarrow> rat list" where
  "raster_all n rate rows =
     fold (\<lambda>a arr. set_slice arr (minval rate a) (maxval rate a)) rows (replicate n 0)"

definition count_nonzero_eq1 :: "rat list \<Rightarrow> nat" where
  "count_nonzero_eq1 arr = length (filter (\<lambda>v. v = 1) arr)"

text \<open>
  The ratios of \<open>clip_general\<close>. They are quotients of Python floats, so a zero
  denominator raises; the handler catches everything and sets all four to 0.
\<close>

definition general_ratios :: "rat \<Rightarrow> rat \<Rightarrow> rat \<Rightarrow> rat \<Rightarrow> rat \<times> rat \<times> rat \<times> rat" where
  "general_ratios tp fp fn union_count =
     (if tp + fp = 0 then (0, 0, 0, 0)
      else let precision = tp / (tp + fp)
      in if tp + fn = 0 then (0, 0, 0, 0)
      else let recall = tp / (tp + fn)
      in if recall + precision = 0 then (0, 0, 0, 0)
      else let f1 = 2 * (recall * precision) / (recall + precision)
      in if union_count = 0 then (0, 0, 0, 0)
      else (precision, recall, f1, tp / union_count))"

text \<open>
  \<open>clip_general(automated_df, human_df)\<close>. The class is the first label of the human
  table and the clip data the first automated row (\<open>IndexError\<close> when either table has
  no row); the counts are sample counts divided by the sample rate, outside the handler.
\<close>

definition clip_general :: "annotation list \<Rightarrow> annotation list \<Rightarrow> py_error + clip_stats" where
  "clip_general automated_df human_df =
     (case human_df of
        [] \<Rightarrow> Inl IndexError
      | first_human # _ \<Rightarrow>
     (case automated_df of
        [] \<Rightarrow> Inl IndexError
      | first # _ \<Rightarrow>
          let clip_class = MANUAL_ID first_human;
              duration = CLIP_LENGTH first;
              sr = SAMPLE_RATE first;
              n = py_int (of_int sr * duration)
          in if n < 0 then Inl ValueError
             else
               let bot_arr = raster_all (nat n) (of_int sr) automated_df;
                   human_arr = raster_all (nat n) (of_int sr) human_df;
                   pairs = zip human_arr bot_arr;
                   true_positive_arr = map (\<lambda>(h, b). h * b) pairs;
                   false_negative_arr = map (\<lambda>(h, b). h * (1 - b)) pairs;
                   false_positive_arr = map (\<lambda>(h, b). (1 - h) * b) pairs;
                   true_negative_arr = map (\<lambda>(h, b). (1 - h) * (1 - b)) pairs;
                   IoU_arr = map (\<lambda>(h, b). if h + b = 2 then 1 else h + b) pairs
               in if sr = 0 then Inl ZeroDivisionError
                  else
                    let true_positive_count = of_nat (count_nonzero_eq1 true_positive_arr) / of_int sr;
                        false_negative_count = of_nat (count_nonzero_eq1 false_negative_arr) / of_int sr;
                        false_positive_count = of_nat (count_nonzero_eq1 false_positive_arr) / of_int sr;
                        true_negative_count = of_nat (count_nonzero_eq1 true_negative_arr) / of_int sr;
                        union_count = of_nat (count_nonzero_eq1 IoU_arr) / of_int sr;
                        (precision, recall, f1, IoU) =
                          general_ratios true_positive_count false_positive_count
                            false_negative_count union_count
                    in Inr \<lparr>stats_FOLDER = FOLDER first, stats_IN_FILE = IN_FILE first,
                            stats_MANUAL_ID = clip_class,
                            TRUE_POSITIVE = true_positive_count,
                            FALSE_POSITIVE = false_positive_count,
                            FALSE_NEGATIVE = false_negative_count,
                            TRUE_NEGATIVE = Some true_negative_count,
                            UNION_COL = Some union_count,
                            PRECISION = precision, RECALL = recall, F1 = f1,
                            Global_IoU = Some IoU\<rparr>))"

section \<open>The driver: \<open>automated_labeling_statistics\<close>\<close>

text \<open>
  \<open>list(dict.fromkeys(xs))\<close> and the \<open>unique()\<close> of a column: the distinct values in
  the order of their first occurrence.
\<close>

fun unique_acc :: "'a list \<Rightarrow> 'a list \<Rightarrow> 'a list" where
  "unique_acc seen [] = []"
| "unique_acc seen (x # xs) =
     (if x \<in> set seen then unique_acc seen xs else x # unique_acc (x # seen) xs)"

definition unique :: "'a list \<Rightarrow> 'a list" where
  "unique xs = unique_acc [] xs"

text \<open>\<open>s.split(sep)\<close> for a one-character separator, and \<open>sep.join(words)\<close>.\<close>

fun py_split :: "char \<Rightarrow> string \<Rightarrow> string list" where
  "py_split sep [] = [[]]"
| "py_split sep (c # cs) =
     (if c = sep then [] # py_split sep cs
      else case py_split sep cs of
             [] \<Rightarrow> [[c]]
           | w # ws \<Rightarrow> (c # w) # ws)"

fun py_join :: "string \<Rightarrow> string list \<Rightarrow> string" where
  "py_join sep [] = []"
| "py_join sep [w] = w"
| "py_join sep (w # v # ws) = w @ sep @ py_join sep (v # ws)"

definition startswith :: "string \<Rightarrow> string \<Rightarrow> bool" where
  "startswith s p = (take (length p) s = p)"

text \<open>\<open>".".join(clip.split(".")[:-1])\<close>: the clip name before its last dot.\<close>

definition clip_stem :: "string \<Rightarrow> string" where
  "clip_stem clip = py_join ''.'' (butlast (py_split CHR ''.'' clip))"

text \<open>
  The two tables of one clip, as the loop selects them: the automated rows whose file
  name is the clip, and the manual rows whose file name starts with the clip's stem.
\<close>

definition clip_automated_rows :: "annotation list \<Rightarrow> string \<Rightarrow> annotation list" where
  "clip_automated_rows automated_df clip = filter (\<lambda>a. IN_FILE a = clip) automated_df"

definition clip_manual_rows :: "annotation list \<Rightarrow> string \<Rightarrow> annotation list" where
  "clip_manual_rows manual_df clip =
     filter (\<lambda>m. startswith (IN_FILE m) (clip_stem clip)) manual_df"

text \<open>The body of the \<open>try\<close> block for one clip.\<close>

definition clip_step ::
  "string \<Rightarrow> rat \<Rightarrow> annotation list \<Rightarrow> annotation list \<Rightarrow> py_error + clip_stats" where
  "clip_step stats_type threshold clip_automated_df clip_manual_df =
     (if stats_type = ''general'' then clip_general clip_automated_df clip_manual_df
      else clip_IoU_stats clip_automated_df clip_manual_df threshold)"

text \<open>
  The state of the loop over the clips: the rows gathered so far and the two counters.
  A clip whose step raises adds no row and increments \<open>num_errors\<close>
  (\<open>except BaseException: num_errors += 1; continue\<close>).
\<close>

record loop_state =
  loop_statistics_df :: "clip_stats list"
  num_errors :: nat
  num_processed :: nat

definition process_clip ::
  "annotation list \<Rightarrow> annotation list \<Rightarrow> string \<Rightarrow> rat \<Rightarrow> string \<Rightarrow> loop_state \<Rightarrow> loop_state" where
  "process_clip automated_df manual_df stats_type threshold clip st =
     (case clip_step stats_type threshold (clip_automated_rows automated_df clip)
             (clip_manual_rows manual_df clip) of
        Inr clip_stats_df \<Rightarrow>
          st\<lparr>loop_statistics_df := loop_statistics_df st @ [clip_stats_df],
             num_processed := num_processed st + 1\<rparr>
      | Inl e \<Rightarrow>
          st\<lparr>num_errors := num_errors st + 1, num_processed := num_processed st + 1\<rparr>)"

definition process_clips ::
  "annotation list \<Rightarrow> annotation list \<Rightarrow> string \<Rightarrow> rat \<Rightarrow> loop_state" where
  "process_clips automated_df manual_df stats_type threshold =
     fold (process_clip automated_df manual_df stats_type threshold)
       (unique (map IN_FILE automated_df))
       \<lparr>loop_statistics_df = [], num_errors = 0, num_processed = 0\<rparr>"

text \<open>
  \<open>automated_labeling_statistics\<close>. After the loop, when a clip has failed, the message
  for \<open>checkVerbose\<close> is built as \<open>"Something went wrong with" + num_errors + ...\<close>:
  a string plus an integer, which raises \<open>TypeError\<close> while the argument is evaluated,
  whatever \<open>verbose\<close> is.
\<close>

definition automated_labeling_statistics ::
  "annotation list \<Rightarrow> annotation list \<Rightarrow> string \<Rightarrow> rat \<Rightarrow> bool \<Rightarrow> py_error + clip_stats list" where
  "automated_labeling_statistics automated_df manual_df stats_type threshold verbose =
     (if stats_type \<noteq> ''IoU'' \<and> stats_type \<noteq> ''general'' then Inl AssertionError
      else if \<not> (0 < threshold \<and> threshold < 1) then Inl AssertionError
      else
        let st = process_clips automated_df manual_df stats_type threshold
        in if 0 < num_errors st then Inl TypeError
           else Inr (loop_statistics_df st))"


section \<open>Global statistics: \<open>global_statistics\<close>, \<open>global_dataset_statistics\<close>, \<open>class_statistics\<close>\<close>

text \<open>
  The column sums of a table are NumPy scalars, and a NumPy division by zero raises
  nothing: it yields \<open>nan\<close> or an infinity (with a warning). A NumPy float is
  therefore a rational or one of the three special values, and the operations follow the
  IEEE rules on them. The sign of a zero is not modelled: a zero divisor counts as
  positive, as the sums of counts are.
\<close>

datatype npfloat = Finite rat | PosInf | NegInf | NaN

fun np_div :: "npfloat \<Rightarrow> npfloat \<Rightarrow> npfloat" where
  "np_div NaN y = NaN"
| "np_div x NaN = NaN"
| "np_div (Finite a) (Finite b) =
     (if b = 0 then (if a = 0 then NaN else if 0 < a then PosInf else NegInf)
      else Finite (a / b))"
| "np_div (Finite a) PosInf = Finite 0"
| "np_div (Finite a) NegInf = Finite 0"
| "np_div PosInf (Finite b) = (if 0 \<le> b then PosInf else NegInf)"
| "np_div NegInf (Finite b) = (if 0 \<le> b then NegInf else PosInf)"
| "np_div x y = NaN"

fun np_mul :: "npfloat \<Rightarrow> npfloat \<Rightarrow> npfloat" where
  "np_mul NaN y = NaN"
| "np_mul x NaN = NaN"
| "np_mul (Finite a) (Finite b) = Finite (a * b)"
| "np_mul (Finite a) PosInf = (if a = 0 then NaN else if 0 < a then PosInf else NegInf)"
| "np_mul (Finite a) NegInf = (if a = 0 then NaN else if 0 < a then NegInf else PosInf)"
| "np_mul PosInf (Finite b) = (if b = 0 then NaN else if 0 < b then PosInf else NegInf)"
| "np_mul NegInf (Finite b) = (if b = 0 then NaN else if 0 < b then NegInf else PosInf)"
| "np_mul PosInf PosInf = PosInf"
| "np_mul NegInf NegInf = PosInf"
| "np_mul x y = NegInf"

fun np_add :: "npfloat \<Rightarrow> npfloat \<Rightarrow> npfloat" where
  "np_add NaN y = NaN"
| "np_add x NaN = NaN"
| "np_add (Finite a) (Finite b) = Finite (a + b)"
| "np_add (Finite a) y = y"
| "np_add x (Finite b) = x"
| "np_add PosInf PosInf = PosInf"
| "np_add NegInf NegInf = NegInf"
| "np_add x y = NaN"

fun np_round :: "nat \<Rightarrow> npfloat \<Rightarrow> npfloat" where
  "np_round n (Finite a) = Finite (round_ndigits n a)"
| "np_round n x = x"

text \<open>The row \<open>global_statistics\<close> and \<open>class_statistics\<close> return for a table.\<close>

record global_stats =
  global_MANUAL_ID :: string
  global_TRUE_POSITIVE :: rat
  global_FALSE_NEGATIVE :: rat
  global_FALSE_POSITIVE :: rat
  global_PRECISION :: npfloat
  global_RECALL :: npfloat
  global_F1 :: npfloat

text \<open>
  The three local variables \<open>precision\<close>, \<open>recall\<close> and \<open>f1\<close> that
  \<open>global_statistics\<close> and \<open>global_dataset_statistics\<close> both compute, by the same
  three lines, from the sums of the count columns.
\<close>

definition global_ratios :: "clip_stats list \<Rightarrow> npfloat \<times> npfloat \<times> npfloat" where
  "global_ratios statistics_df =
     (let tp_sum = sum_list (map TRUE_POSITIVE statistics_df);
          fn_sum = sum_list (map FALSE_NEGATIVE statistics_df);
          fp_sum = sum_list (map FALSE_POSITIVE statistics_df);
          precision = np_div (Finite tp_sum) (Finite (tp_sum + fp_sum));
          recall = np_div (Finite tp_sum) (Finite (tp_sum + fn_sum));
          f1 = np_div (np_mul (Finite 2) (np_mul precision recall)) (np_add precision recall)
      in (precision, recall, f1))"

text \<open>
  \<open>global_statistics(statistics_df, manual_id)\<close>. A table without rows is the table
  without columns the driver returns when no clip succeeded, and the assertion on the
  columns fails. The handler for \<open>ZeroDivisionError\<close> is never entered: the operands are
  NumPy scalars. The row holds the sums and the three ratios rounded to four decimals.
\<close>

definition global_statistics :: "clip_stats list \<Rightarrow> string \<Rightarrow> py_error + global_stats" where
  "global_statistics statistics_df manual_id =
     (if statistics_df = [] then Inl AssertionError
      else
        let tp_sum = sum_list (map TRUE_POSITIVE statistics_df);
            fn_sum = sum_list (map FALSE_NEGATIVE statistics_df);
            fp_sum = sum_list (map FALSE_POSITIVE statistics_df);
            (precision, recall, f1) = global_ratios statistics_df
        in Inr \<lparr>global_MANUAL_ID = manual_id,
                global_TRUE_POSITIVE = tp_sum,
                global_FALSE_NEGATIVE = fn_sum,
                global_FALSE_POSITIVE = fp_sum,
                global_PRECISION = np_round 4 precision,
                global_RECALL = np_round 4 recall,
                global_F1 = np_round 4 f1\<rparr>)"

text \<open>
  The sum of a column that some rows lack skips the missing values, as the \<open>sum()\<close> of
  a column skips \<open>NaN\<close>.
\<close>

definition sum_present :: "rat option list \<Rightarrow> rat" where
  "sum_present vs = sum_list (map (\<lambda>v. case v of None \<Rightarrow> 0 | Some x \<Rightarrow> x) vs)"

record dataset_stats =
  dataset_MANUAL_ID :: string
  dataset_PRECISION :: npfloat
  dataset_RECALL :: npfloat
  dataset_F1 :: npfloat
  dataset_Global_IoU :: npfloat

text \<open>
  \<open>global_dataset_statistics(statistics_df, manual_id)\<close>, for tables of \<open>clip_general\<close>:
  the columns \<open>TRUE NEGATIVE\<close> and \<open>UNION\<close> must exist. There is no handler at all.
\<close>

definition global_dataset_statistics :: "clip_stats list \<Rightarrow> string \<Rightarrow> py_error + dataset_stats" where
  "global_dataset_statistics statistics_df manual_id =
     (if statistics_df = [] then Inl AssertionError
      else if \<not> list_ex (\<lambda>r. TRUE_NEGATIVE r \<noteq> None) statistics_df then Inl AssertionError
      else if \<not> list_ex (\<lambda>r. UNION_COL r \<noteq> None) statistics_df then Inl AssertionError
      else
        let tp_sum = sum_list (map TRUE_POSITIVE statistics_df);
            tn_sum = sum_present (map TRUE_NEGATIVE statistics_df);
            union_sum = sum_present (map UNION_COL statistics_df);
            (precision, recall, f1) = global_ratios statistics_df;
            IoU = np_div (Finite tp_sum) (Finite union_sum)
        in Inr \<lparr>dataset_MANUAL_ID = manual_id,
                dataset_PRECISION = np_round 6 precision,
                dataset_RECALL = np_round 6 recall,
                dataset_F1 = np_round 6 f1,
                dataset_Global_IoU = np_round 6 IoU\<rparr>)"

text \<open>
  \<open>class_statistics(clip_statistics)\<close>: one call of \<open>global_statistics\<close> for every class
  of the table, on the rows of the class, in the order the classes first occur.
\<close>

fun collect_results :: "(py_error + 'a) list \<Rightarrow> py_error + 'a list" where
  "collect_results [] = Inr []"
| "collect_results (Inl e # rs) = Inl e"
| "collect_results (Inr x # rs) =
     (case collect_results rs of Inl e \<Rightarrow> Inl e | Inr xs \<Rightarrow> Inr (x # xs))"

definition class_rows :: "clip_stats list \<Rightarrow> string \<Rightarrow> clip_stats list" where
  "class_rows clip_statistics class = filter (\<lambda>r. stats_MANUAL_ID r = class) clip_statistics"

definition class_statistics :: "clip_stats list \<Rightarrow> py_error + global_stats list" where
  "class_statistics clip_statistics =
     (if clip_statistics = [] then Inl AssertionError
      else collect_results
             (map (\<lambda>class. global_statistics (class_rows clip_statistics class) class)
                  (unique (map stats_MANUAL_ID clip_statistics))))"

text \<open>
  Micro-averaging as the specification words it: the counts are summed over the rows,
  and the three ratios are computed from the sums.
\<close>

definition micro_precision :: "clip_stats list \<Rightarrow> npfloat" where
  "micro_precision rows =
     np_div (Finite (sum_list (map TRUE_POSITIVE rows)))
            (Finite (sum_list (map TRUE_POSITIVE rows) + sum_list (map FALSE_POSITIVE rows)))"

definition micro_recall :: "clip_stats list \<Rightarrow> npfloat" where
  "micro_recall rows =
     np_div (Finite (sum_list (map TRUE_POSITIVE rows)))
            (Finite (sum_list (map TRUE_POSITIVE rows) + sum_list (map FALSE_NEGATIVE rows)))"

definition micro_f1 :: "clip_stats list \<Rightarrow> npfloat" where
  "micro_f1 rows =
     np_div (np_mul (Finite 2) (np_mul (micro_precision rows) (micro_recall rows)))
            (np_add (micro_precision rows) (micro_recall rows))"

text \<open>Macro-averaging, for contrast: the mean of the ratios of the rows.\<close>

definition macro_precision :: "clip_stats list \<Rightarrow> rat" where
  "macro_precision rows = sum_list (map PRECISION rows) / of_nat (length rows)"

definition macro_recall :: "clip_stats list \<Rightarrow> rat" where
  "macro_recall rows = sum_list (map RECALL rows) / of_nat (length rows)"

definition macro_f1 :: "clip_stats list \<Rightarrow> rat" where
  "macro_f1 rows = sum_list (map F1 rows) / of_nat (length rows)"

text \<open>A row of a statistics table with the counts and ratios given, for examples.\<close>

definition mk_stats :: "string \<Rightarrow> string \<Rightarrow> rat \<Rightarrow> rat \<Rightarrow> rat \<Rightarrow> rat \<Rightarrow> rat \<Rightarrow> rat \<Rightarrow> clip_stats" where
  "mk_stats file label tp fp fn precision recall f1 =
     \<lparr>stats_FOLDER = ''d/'', stats_IN_FILE = file, stats_MANUAL_ID = label,
      TRUE_POSITIVE = tp, FALSE_POSITIVE = fp, FALSE_NEGATIVE = fn,
      TRUE_NEGATIVE = None, UNION_COL = None,
      PRECISION = precision, RECALL = recall, F1 = f1, Global_IoU = None\<rparr>"

section \<open>The chunker: \<open>annotation_chunker\<close>\<close>

text \<open>
  The loop \<open>for index in range(potential_annotation_count)\<close> for one class of one clip.
  \<open>human_arr\<close> is the class's timeline at millisecond resolution. The window of an index
  is the slice from \<open>int(chunk_start)\<close> to \<open>int(chunk_end)\<close>; Python's \<open>max\<close> raises
  \<open>ValueError\<close> on an empty window, and a window that holds a 1 gives one output row.
\<close>

definition chunk_start :: "rat \<Rightarrow> nat \<Rightarrow> rat" where
  "chunk_start chunk_length index = of_nat index * (chunk_length * 1000)"

definition chunk_end :: "rat \<Rightarrow> nat \<Rightarrow> nat \<Rightarrow> rat" where
  "chunk_end chunk_length arr_len index =
     min ((of_nat index + 1) * chunk_length * 1000) (of_nat arr_len)"

definition chunk_row ::
  "string \<Rightarrow> string \<Rightarrow> rat \<Rightarrow> int \<Rightarrow> string \<Rightarrow> rat \<Rightarrow> nat \<Rightarrow> annotation" where
  "chunk_row path file clip_len sr bird chunk_length index =
     \<lparr>FOLDER = path, IN_FILE = file, CLIP_LENGTH = clip_len, CHANNEL = 0,
      OFFSET = chunk_start chunk_length index / 1000, DURATION = chunk_length,
      SAMPLE_RATE = sr, MANUAL_ID = bird\<rparr>"

definition chunk_window ::
  "string \<Rightarrow> string \<Rightarrow> rat \<Rightarrow> int \<Rightarrow> string \<Rightarrow> rat \<Rightarrow> rat list \<Rightarrow> nat
     \<Rightarrow> py_error + annotation list" where
  "chunk_window path file clip_len sr bird chunk_length human_arr index =
     (let chunk = get_slice human_arr (py_int (chunk_start chunk_length index))
                    (py_int (chunk_end chunk_length (length human_arr) index))
      in if chunk = [] then Inl ValueError
         else if 1 / 2 \<le> max_list chunk
              then Inr [chunk_row path file clip_len sr bird chunk_length index]
              else Inr [])"

text \<open>
  A list of results in sequence: the first error, or all the values
  (the loops of the chunker stop at the first exception).
\<close>

definition concat_results :: "(py_error + 'a list) list \<Rightarrow> py_error + 'a list" where
  "concat_results rs = (case collect_results rs of Inl e \<Rightarrow> Inl e | Inr xss \<Rightarrow> Inr (concat xss))"

text \<open>
  The body of \<open>for bird in birds\<close>: the rows of the class, rasterised into \<open>arr_len\<close>
  milliseconds, then the windows.
\<close>

definition species_chunks ::
  "string \<Rightarrow> string \<Rightarrow> rat \<Rightarrow> int \<Rightarrow> rat \<Rightarrow> nat \<Rightarrow> int \<Rightarrow> annotation list \<Rightarrow> string
     \<Rightarrow> py_error + annotation list" where
  "species_chunks path file clip_len sr chunk_length arr_len potential_annotation_count
       clip_df bird =
     (let species_df = filter (\<lambda>a. MANUAL_ID a = bird) clip_df;
          human_arr = raster_all arr_len 1000 species_df
      in concat_results
           (map (chunk_window path file clip_len sr bird chunk_length human_arr)
                [0..<nat potential_annotation_count]))"

definition FILEPATH :: "annotation \<Rightarrow> string" where
  "FILEPATH a = FOLDER a @ IN_FILE a"

text \<open>
  The body of \<open>for clip in clips\<close>. The clip's folder, file, sample rate and length are
  those of its first row. A clip shorter than \<open>chunk_length\<close> is skipped; the integer
  division raises \<open>ZeroDivisionError\<close> when \<open>int(chunk_length)\<close> is 0, and \<open>np.zeros\<close>
  raises \<open>ValueError\<close> on a negative length.
\<close>

definition clip_chunks :: "annotation list \<Rightarrow> rat \<Rightarrow> string \<Rightarrow> py_error + annotation list" where
  "clip_chunks kaleidoscope_df chunk_length clip =
     (let clip_df = filter (\<lambda>a. FILEPATH a = clip) kaleidoscope_df
      in case clip_df of
           [] \<Rightarrow> Inl IndexError
         | first # _ \<Rightarrow>
             let path = FOLDER first;
                 file = IN_FILE first;
                 birds = unique (map MANUAL_ID clip_df);
                 sr = SAMPLE_RATE first;
                 clip_len = CLIP_LENGTH first
             in if clip_len < chunk_length then Inr []
                else if py_int chunk_length = 0 then Inl ZeroDivisionError
                else
                  let potential_annotation_count = py_int clip_len div py_int chunk_length;
                      arr_len = py_int (clip_len * 1000)
                  in if arr_len < 0 then Inl ValueError
                     else concat_results
                            (map (species_chunks path file clip_len sr chunk_length (nat arr_len)
                                    potential_annotation_count clip_df) birds))"

definition annotation_chunker :: "annotation list \<Rightarrow> rat \<Rightarrow> py_error + annotation list" where
  "annotation_chunker kaleidoscope_df chunk_length =
     concat_results
       (map (clip_chunks kaleidoscope_df chunk_length)
            (unique (map FILEPATH kaleidoscope_df)))"

text \<open>
  The offsets of the windows the chunker considers in a clip that is not skipped:
  \<open>chunk_start / 1000\<close> for every index of the loop.
\<close>

definition window_offsets :: "rat \<Rightarrow> rat \<Rightarrow> rat list" where
  "window_offsets clip_len chunk_length =
     (if clip_len < chunk_length then []
      else map (\<lambda>index. chunk_start chunk_length index / 1000)
               [0..<nat (py_int clip_len div py_int chunk_length)])"

text \<open>
  Whether a window holds a sample of one of the rows, from the bounds of the slices
  alone: the verification shows the window test of \<open>chunk_window\<close> equal to it.
\<close>

definition window_hit :: "nat \<Rightarrow> annotation list \<Rightarrow> int \<Rightarrow> int \<Rightarrow> bool" where
  "window_hit n rows start stop =
     list_ex (\<lambda>a. max (slice_index n start) (slice_index n (minval 1000 a))
                   < min (slice_index n stop) (slice_index n (maxval 1000 a))) rows"

text \<open>
  The output for an integer \<open>chunk_length\<close> of \<open>c\<close> seconds, \<open>c\<close> at least 1, written
  without arrays and without errors: the rows of a class are the rows of the windows
  \<open>[k * c * 1000, (k + 1) * c * 1000)\<close> that one of its annotations hits; the rows of a
  clip those of its classes; the rows of the table those of its clips. The verification
  shows \<open>annotation_chunker\<close> returns exactly \<open>chunked_rows\<close> then.
\<close>

definition species_rows ::
  "string \<Rightarrow> string \<Rightarrow> rat \<Rightarrow> int \<Rightarrow> nat \<Rightarrow> annotation list \<Rightarrow> string \<Rightarrow> annotation list" where
  "species_rows path file clip_len sr c clip_df bird =
     map (chunk_row path file clip_len sr bird (of_nat c))
       (filter (\<lambda>k. window_hit (nat (py_int (clip_len * 1000)))
                        (filter (\<lambda>a. MANUAL_ID a = bird) clip_df)
                        (int (k * c * 1000)) (int ((k + 1) * c * 1000)))
          [0..<nat (py_int clip_len div int c)])"

definition clip_rows :: "annotation list \<Rightarrow> nat \<Rightarrow> string \<Rightarrow> annotation list" where
  "clip_rows kaleidoscope_df c clip =
     (let clip_df = filter (\<lambda>a. FILEPATH a = clip) kaleidoscope_df;
          first = hd clip_df
      in if CLIP_LENGTH first < of_nat c then []
         else concat (map (species_rows (FOLDER first) (IN_FILE first) (CLIP_LENGTH first)
                             (SAMPLE_RATE first) c clip_df)
                          (unique (map MANUAL_ID clip_df))))"

definition chunked_rows :: "annotation list \<Rightarrow> nat \<Rightarrow> annotation list" where
  "chunked_rows kaleidoscope_df c =
     concat (map (clip_rows kaleidoscope_df c) (unique (map FILEPATH kaleidoscope_df)))"

section \<open>Properties of the matcher\<close>

lemma max_list_Max:
  assumes "xs \<noteq> []"
  shows "max_list xs = Max (set xs)"
proof -
  obtain a list where "xs = a # list" using assms by (cases xs) auto
  then show ?thesis
    using Max.set_eq_fold[of a list] by (simp add: max_list_def)
qed

lemma best_fits_nth:
  "i < length M \<Longrightarrow> M ! i \<noteq> [] \<Longrightarrow> automated_label_best_fits M ! i = Max (set (M ! i))"
  by (simp add: automated_label_best_fits_def max_list_Max)

lemma column_set: "set (column j M) = (\<lambda>row. row ! j) ` set M"
  by (simp add: column_def)

lemma max_val_per_column_nth:
  assumes "M \<noteq> []" "j < ncols M"
  shows "max_val_per_column M ! j = Max ((\<lambda>row. row ! j) ` set M)"
proof -
  have "column j M \<noteq> []" using assms(1) by (simp add: column_def)
  then have "max_list (column j M) = Max (set (column j M))" by (rule max_list_Max)
  then show ?thesis using assms(2) by (simp add: max_val_per_column_def column_set)
qed

lemma length_best_fits: "length (automated_label_best_fits M) = length M"
  by (simp add: automated_label_best_fits_def)

lemma length_max_val_per_column: "length (max_val_per_column M) = ncols M"
  by (simp add: max_val_per_column_def)

lemma filter_split_length:
  "length (filter (\<lambda>v. (t::rat) \<le> v) xs) + length (filter (\<lambda>v. v < t) xs) = length xs"
  by (induction xs) auto

lemma matrix_IoU_Scores_returns:
  assumes "0 < t" "t < 1" "M \<noteq> []" "ncols M \<noteq> 0" "manual \<noteq> []"
  shows "\<exists>r. matrix_IoU_Scores M manual t = Inr r \<and>
     TRUE_POSITIVE r = of_nat (length (filter (\<lambda>v. t \<le> v) (automated_label_best_fits M))) \<and>
     FALSE_NEGATIVE r = of_nat (length (filter (\<lambda>v. v < t) (automated_label_best_fits M))) \<and>
     FALSE_POSITIVE r = of_nat (length (filter (\<lambda>v. v < t) (max_val_per_column M)))"
proof -
  obtain first rest where m: "manual = first # rest"
    using assms(5) by (cases manual) auto
  obtain p r f where pr: "iou_ratios (length (filter (\<lambda>v. t \<le> v) (automated_label_best_fits M)))
            (length (filter (\<lambda>v. v < t) (automated_label_best_fits M)))
            (length (filter (\<lambda>v. v < t) (max_val_per_column M))) = (p, r, f)"
    using prod_cases3 by blast
  show ?thesis
    unfolding matrix_IoU_Scores_def Let_def m pr
    using assms(1-4) by simp
qed

text \<open>
  On a matrix without rows or without columns the matcher does not return: one of the
  two reductions raises.
\<close>

lemma matrix_IoU_Scores_empty:
  "0 < t \<Longrightarrow> t < 1 \<Longrightarrow> manual \<noteq> [] \<Longrightarrow> M = [] \<or> ncols M = 0 \<Longrightarrow>
   matrix_IoU_Scores M manual t = Inl ValueError"
  by (cases manual) (auto simp: matrix_IoU_Scores_def)

lemma count_rows:
  assumes "\<forall>row\<in>set M. row \<noteq> []"
  shows "length (filter P (automated_label_best_fits M)) =
         card {i. i < length M \<and> P (Max (set (M ! i)))}"
proof -
  have "length (filter P (automated_label_best_fits M)) =
        card {i. i < length (automated_label_best_fits M) \<and> P (automated_label_best_fits M ! i)}"
    by (rule length_filter_conv_card)
  also have "{i. i < length (automated_label_best_fits M) \<and> P (automated_label_best_fits M ! i)}
           = {i. i < length M \<and> P (Max (set (M ! i)))}"
  proof (rule Collect_cong)
    fix i
    show "(i < length (automated_label_best_fits M) \<and> P (automated_label_best_fits M ! i)) =
          (i < length M \<and> P (Max (set (M ! i))))"
    proof (cases "i < length M")
      case True
      then have "M ! i \<noteq> []" using assms nth_mem by blast
      with True show ?thesis by (simp add: length_best_fits best_fits_nth)
    next
      case False
      then show ?thesis by (simp add: length_best_fits)
    qed
  qed
  finally show ?thesis .
qed

lemma count_cols:
  assumes "M \<noteq> []"
  shows "length (filter P (max_val_per_column M)) =
         card {j. j < ncols M \<and> P (Max ((\<lambda>row. row ! j) ` set M))}"
proof -
  have "length (filter P (max_val_per_column M)) =
        card {j. j < length (max_val_per_column M) \<and> P (max_val_per_column M ! j)}"
    by (rule length_filter_conv_card)
  also have "{j. j < length (max_val_per_column M) \<and> P (max_val_per_column M ! j)}
           = {j. j < ncols M \<and> P (Max ((\<lambda>row. row ! j) ` set M))}"
  proof (rule Collect_cong)
    fix j
    show "(j < length (max_val_per_column M) \<and> P (max_val_per_column M ! j)) =
          (j < ncols M \<and> P (Max ((\<lambda>row. row ! j) ` set M)))"
      using assms
      by (cases "j < ncols M") (simp_all add: length_max_val_per_column max_val_per_column_nth)
  qed
  finally show ?thesis .
qed

text \<open>
  Claim C4, as amended. On an IoU matrix with R rows and C columns (R, C at least 1, one human row of
  \<open>manual_df\<close> per matrix row) and a threshold strictly between 0 and 1, the matcher's
  best fit of human label i is the maximum of row i, its best fit of automated label j is
  the maximum of column j, and it returns TP = the number of rows whose maximum is at
  least the threshold, FN = the number of rows whose maximum is below it, and FP = the
  number of columns whose maximum is below it.
\<close>

theorem matrix_IoU_Scores_best_fit_counts:
  assumes "0 < threshold" "threshold < 1"
    and "IoU_Matrix \<noteq> []" "0 < C" "\<forall>row\<in>set IoU_Matrix. length row = C"
    and "length manual_df = length IoU_Matrix"
  shows "(\<forall>i<length IoU_Matrix.
            automated_label_best_fits IoU_Matrix ! i = Max (set (IoU_Matrix ! i))) \<and>
         (\<forall>j<C. max_val_per_column IoU_Matrix ! j = Max ((\<lambda>row. row ! j) ` set IoU_Matrix)) \<and>
         (\<exists>r. matrix_IoU_Scores IoU_Matrix manual_df threshold = Inr r \<and>
            TRUE_POSITIVE r = of_nat (card {i. i < length IoU_Matrix \<and>
                                  threshold \<le> Max (set (IoU_Matrix ! i))}) \<and>
            FALSE_NEGATIVE r = of_nat (card {i. i < length IoU_Matrix \<and>
                                  Max (set (IoU_Matrix ! i)) < threshold}) \<and>
            FALSE_POSITIVE r = of_nat (card {j. j < C \<and>
                                  Max ((\<lambda>row. row ! j) ` set IoU_Matrix) < threshold}))"
proof -
  have nc: "ncols IoU_Matrix = C"
    using assms(3,5) by (cases IoU_Matrix) (simp_all add: ncols_def)
  have ne: "\<forall>row\<in>set IoU_Matrix. row \<noteq> []"
    using assms(4,5) by auto
  have m: "manual_df \<noteq> []" using assms(3,6) by auto
  have rows: "\<forall>i<length IoU_Matrix.
            automated_label_best_fits IoU_Matrix ! i = Max (set (IoU_Matrix ! i))"
    using ne by (simp add: best_fits_nth)
  have cols: "\<forall>j<C. max_val_per_column IoU_Matrix ! j = Max ((\<lambda>row. row ! j) ` set IoU_Matrix)"
    using assms(3) nc by (simp add: max_val_per_column_nth)
  from assms(4) nc have "ncols IoU_Matrix \<noteq> 0" by simp
  from matrix_IoU_Scores_returns[OF assms(1,2,3) this m]
  obtain r where r: "matrix_IoU_Scores IoU_Matrix manual_df threshold = Inr r"
     "TRUE_POSITIVE r = of_nat (length (filter (\<lambda>v. threshold \<le> v) (automated_label_best_fits IoU_Matrix)))"
     "FALSE_NEGATIVE r = of_nat (length (filter (\<lambda>v. v < threshold) (automated_label_best_fits IoU_Matrix)))"
     "FALSE_POSITIVE r = of_nat (length (filter (\<lambda>v. v < threshold) (max_val_per_column IoU_Matrix)))"
    by blast
  have "TRUE_POSITIVE r = of_nat (card {i. i < length IoU_Matrix \<and>
                                  threshold \<le> Max (set (IoU_Matrix ! i))})"
    unfolding r(2) count_rows[OF ne] ..
  moreover have "FALSE_NEGATIVE r = of_nat (card {i. i < length IoU_Matrix \<and>
                                  Max (set (IoU_Matrix ! i)) < threshold})"
    unfolding r(3) count_rows[OF ne] ..
  moreover have "FALSE_POSITIVE r = of_nat (card {j. j < C \<and>
                                  Max ((\<lambda>row. row ! j) ` set IoU_Matrix) < threshold})"
    unfolding r(4) count_cols[OF assms(3)] nc ..
  ultimately show ?thesis using rows cols r(1) by blast
qed

theorem matrix_IoU_Scores_best_fit_counts_witness:
  "automated_label_best_fits ([[1 / 10, 3 / 5], [1 / 5, 3 / 10]] :: rat list list) ! 1 = Max (set (([[1 / 10, 3 / 5], [1 / 5, 3 / 10]] :: rat list list) ! 1)) \<and>
   max_val_per_column ([[1 / 10, 3 / 5], [1 / 5, 3 / 10]] :: rat list list) ! 0 = Max ((\<lambda>row. row ! 0) ` set ([[1 / 10, 3 / 5], [1 / 5, 3 / 10]] :: rat list list)) \<and>
   (\<exists>r. matrix_IoU_Scores ([[1 / 10, 3 / 5], [1 / 5, 3 / 10]] :: rat list list)
          [mk_annotation ''d/'' ''a.wav'' 10 0 1 10 ''bird'',
           mk_annotation ''d/'' ''a.wav'' 10 5 1 10 ''bird''] (1 / 2) = Inr r \<and>
      TRUE_POSITIVE r = of_nat (card {i. i < length ([[1 / 10, 3 / 5], [1 / 5, 3 / 10]] :: rat list list) \<and>
          1 / 2 \<le> Max (set (([[1 / 10, 3 / 5], [1 / 5, 3 / 10]] :: rat list list) ! i))}) \<and>
      FALSE_NEGATIVE r = of_nat (card {i. i < length ([[1 / 10, 3 / 5], [1 / 5, 3 / 10]] :: rat list list) \<and>
          Max (set (([[1 / 10, 3 / 5], [1 / 5, 3 / 10]] :: rat list list) ! i)) < 1 / 2}) \<and>
      FALSE_POSITIVE r = of_nat (card {j. j < 2 \<and>
          Max ((\<lambda>row. row ! j) ` set ([[1 / 10, 3 / 5], [1 / 5, 3 / 10]] :: rat list list)) < 1 / 2}))"
proof -
  have all: "(\<forall>i<length ([[1 / 10, 3 / 5], [1 / 5, 3 / 10]] :: rat list list).
      automated_label_best_fits ([[1 / 10, 3 / 5], [1 / 5, 3 / 10]] :: rat list list) ! i = Max (set (([[1 / 10, 3 / 5], [1 / 5, 3 / 10]] :: rat list list) ! i))) \<and>
   (\<forall>j<2. max_val_per_column ([[1 / 10, 3 / 5], [1 / 5, 3 / 10]] :: rat list list) ! j = Max ((\<lambda>row. row ! j) ` set ([[1 / 10, 3 / 5], [1 / 5, 3 / 10]] :: rat list list))) \<and>
   (\<exists>r. matrix_IoU_Scores ([[1 / 10, 3 / 5], [1 / 5, 3 / 10]] :: rat list list)
          [mk_annotation ''d/'' ''a.wav'' 10 0 1 10 ''bird'',
           mk_annotation ''d/'' ''a.wav'' 10 5 1 10 ''bird''] (1 / 2) = Inr r \<and>
      TRUE_POSITIVE r = of_nat (card {i. i < length ([[1 / 10, 3 / 5], [1 / 5, 3 / 10]] :: rat list list) \<and>
          1 / 2 \<le> Max (set (([[1 / 10, 3 / 5], [1 / 5, 3 / 10]] :: rat list list) ! i))}) \<and>
      FALSE_NEGATIVE r = of_nat (card {i. i < length ([[1 / 10, 3 / 5], [1 / 5, 3 / 10]] :: rat list list) \<and>
          Max (set (([[1 / 10, 3 / 5], [1 / 5, 3 / 10]] :: rat list list) ! i)) < 1 / 2}) \<and>
      FALSE_POSITIVE r = of_nat (card {j. j < 2 \<and>
          Max ((\<lambda>row. row ! j) ` set ([[1 / 10, 3 / 5], [1 / 5, 3 / 10]] :: rat list list)) < 1 / 2}))"
    by (rule matrix_IoU_Scores_best_fit_counts) simp_all
  have one: "1 < length ([[1 / 10, 3 / 5], [1 / 5, 3 / 10]] :: rat list list)" and zero: "(0::nat) < 2" by simp_all
  from all one have "automated_label_best_fits ([[1 / 10, 3 / 5], [1 / 5, 3 / 10]] :: rat list list) ! 1 = Max (set (([[1 / 10, 3 / 5], [1 / 5, 3 / 10]] :: rat list list) ! 1))" by blast
  moreover from all zero
  have "max_val_per_column ([[1 / 10, 3 / 5], [1 / 5, 3 / 10]] :: rat list list) ! 0 = Max ((\<lambda>row. row ! 0) ` set ([[1 / 10, 3 / 5], [1 / 5, 3 / 10]] :: rat list list))" by blast
  ultimately show ?thesis using all by blast
qed

text \<open>
  Claim C10. On an IoU matrix with at least one human row and at least one automated
  column, and a threshold strictly between 0 and 1, the matcher returns, and its TP and
  FN counts sum to the number of human rows: every human label is counted once.
\<close>

theorem matrix_IoU_Scores_tp_plus_fn:
  assumes "0 < threshold" "threshold < 1"
    and "IoU_Matrix \<noteq> []" "ncols IoU_Matrix \<noteq> 0"
    and "length manual_df = length IoU_Matrix"
  shows "\<exists>r. matrix_IoU_Scores IoU_Matrix manual_df threshold = Inr r \<and>
             TRUE_POSITIVE r + FALSE_NEGATIVE r = of_nat (length IoU_Matrix)"
proof -
  from assms have m: "manual_df \<noteq> []" by auto
  have "length (filter (\<lambda>v. threshold \<le> v) (automated_label_best_fits IoU_Matrix))
      + length (filter (\<lambda>v. v < threshold) (automated_label_best_fits IoU_Matrix))
      = length IoU_Matrix"
    by (simp add: filter_split_length length_best_fits)
  then have e: "(of_nat (length (filter (\<lambda>v. threshold \<le> v) (automated_label_best_fits IoU_Matrix))) :: rat)
      + of_nat (length (filter (\<lambda>v. v < threshold) (automated_label_best_fits IoU_Matrix)))
      = of_nat (length IoU_Matrix)"
    by (simp only: of_nat_add[symmetric])
  obtain r where r: "matrix_IoU_Scores IoU_Matrix manual_df threshold = Inr r"
     "TRUE_POSITIVE r = of_nat (length (filter (\<lambda>v. threshold \<le> v) (automated_label_best_fits IoU_Matrix)))"
     "FALSE_NEGATIVE r = of_nat (length (filter (\<lambda>v. v < threshold) (automated_label_best_fits IoU_Matrix)))"
    using matrix_IoU_Scores_returns[OF assms(1-4) m] by blast
  show ?thesis using r e by simp
qed

theorem matrix_IoU_Scores_tp_plus_fn_witness:
  "\<exists>r. matrix_IoU_Scores [[1 / 10, 3 / 5], [1 / 5, 3 / 10]]
          [mk_annotation ''d/'' ''a.wav'' 10 0 1 10 ''bird'',
           mk_annotation ''d/'' ''a.wav'' 10 5 1 10 ''bird''] (1 / 2) = Inr r \<and>
      TRUE_POSITIVE r + FALSE_NEGATIVE r = of_nat (length [[1 / 10, 3 / 5], [1 / 5, 3 / 10 :: rat]])"
  by (rule matrix_IoU_Scores_tp_plus_fn) (simp_all add: ncols_def)

section \<open>Properties of the rasteriser and of \<open>clip_IoU\<close>\<close>

lemma slice_index_le: "slice_index n i \<le> n"
  by (auto simp: slice_index_def)

lemma length_set_slice: "length (set_slice arr a b) = length arr"
  by (simp add: set_slice_def Let_def)

lemma label_row_eq:
  "label_row n sr a =
     map (\<lambda>i. if slice_index n (minval (of_int sr) a) \<le> i \<and> i < slice_index n (maxval (of_int sr) a)
              then 1 else 0) [0..<n]"
  by (simp add: label_row_def set_slice_def Let_def)

lemma length_label_row: "length (label_row n sr a) = n"
  by (simp add: label_row_eq)

lemma dot_map: "dot (map f xs) (map g xs) = sum_list (map (\<lambda>x. f x * g x) xs)"
  by (induction xs) (simp_all add: dot_def)

lemma logical_or_sum_map:
  "logical_or_sum (map f xs) (map g xs) = length (filter (\<lambda>x. f x \<noteq> 0 \<or> g x \<noteq> 0) xs)"
  by (induction xs) (simp_all add: logical_or_sum_def)

lemma sum_list_indicator:
  "sum_list (map (\<lambda>x. if P x then 1 else 0) xs) = (of_nat (length (filter P xs)) :: rat)"
  by (induction xs) simp_all

lemma filter_interval: "filter (\<lambda>i. a \<le> i \<and> i < b) [0..<n] = [a..<min b n]"
proof (rule sorted_distinct_set_unique)
  show "sorted (filter (\<lambda>i. a \<le> i \<and> i < b) [0..<n])" by (simp add: sorted_wrt_filter)
  show "distinct (filter (\<lambda>i. a \<le> i \<and> i < b) [0..<n])" by simp
  show "sorted [a..<min b n]" by simp
  show "distinct [a..<min b n]" by simp
  show "set (filter (\<lambda>i. a \<le> i \<and> i < b) [0..<n]) = set [a..<min b n]" by auto
qed

lemma count_interval:
  "length (filter (\<lambda>i. a \<le> i \<and> i < b) [0..<n]) = min b n - a"
  by (simp add: filter_interval)

lemma count_or_and:
  "length (filter (\<lambda>x. P x \<or> Q x) xs) + length (filter (\<lambda>x. P x \<and> Q x) xs)
   = length (filter P xs) + length (filter Q xs)"
  by (induction xs) auto

text \<open>The sample ranges of two rows, and the closed form of their IoU entry.\<close>

lemma dot_label_rows:
  assumes "lh = slice_index n (minval (of_int sr) h)" "hh = slice_index n (maxval (of_int sr) h)"
      "lb = slice_index n (minval (of_int sr) b)" "hb = slice_index n (maxval (of_int sr) b)"
  shows "dot (label_row n sr h) (label_row n sr b) = of_nat (min hh hb - max lh lb)"
proof -
  have hn: "hh \<le> n" "hb \<le> n" using assms by (simp_all add: slice_index_le)
  have "dot (label_row n sr h) (label_row n sr b)
      = sum_list (map (\<lambda>i. if (max lh lb \<le> i \<and> i < min hh hb) then 1 else 0) [0..<n])"
    unfolding label_row_eq dot_map assms[symmetric]
    by (rule arg_cong[where f=sum_list], rule map_cong) auto
  also have "\<dots> = of_nat (min (min hh hb) n - max lh lb)"
    by (simp only: sum_list_indicator count_interval)
  also have "min (min hh hb) n = min hh hb" using hn by simp
  finally show ?thesis .
qed

lemma or_label_rows:
  assumes "lh = slice_index n (minval (of_int sr) h)" "hh = slice_index n (maxval (of_int sr) h)"
      "lb = slice_index n (minval (of_int sr) b)" "hb = slice_index n (maxval (of_int sr) b)"
  shows "logical_or_sum (label_row n sr h) (label_row n sr b)
         = (hh - lh) + (hb - lb) - (min hh hb - max lh lb)"
proof -
  have hn: "hh \<le> n" "hb \<le> n" using assms by (simp_all add: slice_index_le)
  let ?P = "\<lambda>i. lh \<le> i \<and> i < hh" and ?Q = "\<lambda>i. lb \<le> i \<and> i < hb"
  have "logical_or_sum (label_row n sr h) (label_row n sr b)
      = length (filter (\<lambda>i. ?P i \<or> ?Q i) [0..<n])"
    unfolding label_row_eq logical_or_sum_map assms[symmetric]
    by (rule arg_cong[where f=length], rule filter_cong) auto
  moreover have "length (filter (\<lambda>i. ?P i \<and> ?Q i) [0..<n]) = min hh hb - max lh lb"
  proof -
    have "filter (\<lambda>i. ?P i \<and> ?Q i) [0..<n] = filter (\<lambda>i. max lh lb \<le> i \<and> i < min hh hb) [0..<n]"
      by (rule filter_cong) auto
    then have "length (filter (\<lambda>i. ?P i \<and> ?Q i) [0..<n]) = min (min hh hb) n - max lh lb"
      by (simp only: count_interval)
    then show ?thesis using hn by (simp add: min_absorb1)
  qed
  moreover have "length (filter ?P [0..<n]) = hh - lh" "length (filter ?Q [0..<n]) = hb - lb"
    using hn by (simp_all add: count_interval)
  ultimately show ?thesis
    using count_or_and[of ?P ?Q "[0..<n]"] by linarith
qed

lemma IoU_entry_label_rows:
  assumes "lh = slice_index n (minval (of_int sr) h)" "hh = slice_index n (maxval (of_int sr) h)"
      "lb = slice_index n (minval (of_int sr) b)" "hb = slice_index n (maxval (of_int sr) b)"
  shows "IoU_entry (label_row n sr h) (label_row n sr b) =
           (if min hh hb - max lh lb = 0 then 0
            else round_ndigits 4 (of_nat (min hh hb - max lh lb)
                   / of_nat ((hh - lh) + (hb - lb) - (min hh hb - max lh lb))))"
  unfolding IoU_entry_def Let_def dot_label_rows[OF assms] or_label_rows[OF assms]
  by simp

lemma py_round_of_int [simp]: "py_round (of_int k) = k"
  by (simp add: py_round_def)

lemma floor_le_py_round: "\<lfloor>x\<rfloor> \<le> py_round x"
  by (auto simp: py_round_def Let_def)

lemma py_round_le_floor_Suc: "py_round x \<le> \<lfloor>x\<rfloor> + 1"
  by (auto simp: py_round_def Let_def)

lemma py_round_ge: "of_int k \<le> x \<Longrightarrow> k \<le> py_round x"
proof -
  assume "of_int k \<le> x"
  then have "k \<le> \<lfloor>x\<rfloor>" by (simp add: le_floor_iff)
  then show ?thesis using floor_le_py_round[of x] by linarith
qed

lemma py_round_le: "x \<le> of_int k \<Longrightarrow> py_round x \<le> k"
proof -
  assume a: "x \<le> of_int k"
  have f: "\<lfloor>x\<rfloor> \<le> k" using a by (simp add: floor_le_iff)
  show ?thesis
  proof (cases "\<lfloor>x\<rfloor> = k")
    case True
    then have "x = of_int k" using a by (metis antisym of_int_floor_le)
    then show ?thesis by simp
  next
    case False
    with f have "\<lfloor>x\<rfloor> + 1 \<le> k" by simp
    then show ?thesis using py_round_le_floor_Suc[of x] by linarith
  qed
qed

lemma py_round_mono: "x \<le> y \<Longrightarrow> py_round x \<le> py_round y"
proof -
  assume xy: "x \<le> y"
  have fl: "\<lfloor>x\<rfloor> \<le> \<lfloor>y\<rfloor>" using xy by (rule floor_mono)
  show ?thesis
  proof (cases "\<lfloor>x\<rfloor> = \<lfloor>y\<rfloor>")
    case True
    then have "x - of_int \<lfloor>x\<rfloor> \<le> y - of_int \<lfloor>y\<rfloor>" using xy by simp
    then show ?thesis using True by (auto simp: py_round_def Let_def)
  next
    case False
    with fl have "\<lfloor>x\<rfloor> + 1 \<le> \<lfloor>y\<rfloor>" by simp
    then show ?thesis using py_round_le_floor_Suc[of x] floor_le_py_round[of y] by linarith
  qed
qed

lemma py_int_of_int [simp]: "py_int (of_int k) = k"
  by (simp add: py_int_def)

lemma round_ndigits_bounds:
  assumes "0 \<le> x" "x \<le> 1"
  shows "0 \<le> round_ndigits n x \<and> round_ndigits n x \<le> 1"
proof -
  have "of_int 0 \<le> x * 10 ^ n" using assms by simp
  then have a: "0 \<le> py_round (x * 10 ^ n)" by (rule py_round_ge)
  have "x * 10 ^ n \<le> of_int (10 ^ n)" using assms by (simp add: mult_left_le_one_le)
  then have b: "py_round (x * 10 ^ n) \<le> 10 ^ n" by (rule py_round_le)
  have "(of_int (py_round (x * 10 ^ n)) :: rat) \<le> of_int (10 ^ n)" using b by (simp only: of_int_le_iff)
  then show ?thesis using a by (simp add: round_ndigits_def divide_le_eq_1)
qed

lemma round_ndigits_one [simp]: "round_ndigits n 1 = 1"
proof -
  have "py_round (of_int (10 ^ n)) = 10 ^ n" by (rule py_round_of_int)
  then show ?thesis by (simp add: round_ndigits_def)
qed

lemma IoU_entry_closed: "IoU_entry (label_row n sr h) (label_row n sr b) = iou_closed n sr h b"
  unfolding iou_closed_def Let_def by (rule IoU_entry_label_rows) (rule refl)+

lemma clip_IoU_closed:
  "clip_IoU automated_df manual_df =
     (case automated_df of
        [] \<Rightarrow> Inl IndexError
      | first # _ \<Rightarrow>
          if py_int (CLIP_LENGTH first * of_int (SAMPLE_RATE first)) < 0 then Inl ValueError
          else Inr (map (\<lambda>h. map (\<lambda>b.
                 iou_closed (nat (py_int (CLIP_LENGTH first * of_int (SAMPLE_RATE first))))
                   (SAMPLE_RATE first) h b) automated_df) manual_df))"
  by (cases automated_df) (simp_all add: clip_IoU_def Let_def IoU_entry_closed comp_def)

subsection \<open>The worked example of the specification\<close>

lemma py_round_numeral [simp]: "py_round (numeral k) = numeral k"
  using py_round_of_int[of "numeral k"] by simp

lemma py_round_zero [simp]: "py_round 0 = 0"
  using py_round_of_int[of 0] by simp

lemma py_round_one [simp]: "py_round 1 = 1"
  using py_round_of_int[of 1] by simp

lemma py_round_of_nat [simp]: "py_round (of_nat m) = int m"
  using py_round_of_int[of "int m"] by simp

lemma py_round_numeral_mult_nat [simp]: "py_round (numeral k * of_nat m) = numeral k * int m"
  using py_round_of_int[of "numeral k * int m"] by simp

lemma py_int_of_nat [simp]: "py_int (of_nat m) = int m"
  using py_int_of_int[of "int m"] by simp

lemma py_int_numeral_mult_nat [simp]: "py_int (numeral k * of_nat m) = numeral k * int m"
  using py_int_of_int[of "numeral k * int m"] by simp

lemma py_int_numeral [simp]: "py_int (numeral k) = numeral k"
  using py_int_of_int[of "numeral k"] by simp

lemma py_int_zero [simp]: "py_int 0 = 0"
  using py_int_of_int[of 0] by simp

lemma round_ndigits_zero [simp]: "round_ndigits n 0 = 0"
  by (simp add: round_ndigits_def)

lemma round_ndigits_tenth: "round_ndigits 4 (1 / 10) = 1 / 10"
proof -
  have "(1 / 10 * 10 ^ 4 :: rat) = 1000" by simp
  then have "py_round (1 / 10 * 10 ^ 4) = 1000" by (simp only: py_round_numeral)
  then show ?thesis by (simp add: round_ndigits_def)
qed

lemma slice_index_int [simp]: "slice_index n (int k) = min n k"
  by (simp add: slice_index_def)

lemma iou_closed_bounds:
  assumes "slice_index n (minval (of_int sr) h) = lh" "slice_index n (maxval (of_int sr) h) = hh"
      "slice_index n (minval (of_int sr) b) = lb" "slice_index n (maxval (of_int sr) b) = hb"
  shows "iou_closed n sr h b =
     (if min hh hb - max lh lb = 0 then 0
      else round_ndigits 4 (of_nat (min hh hb - max lh lb)
                   / of_nat ((hh - lh) + (hb - lb) - (min hh hb - max lh lb))))"
  by (simp add: iou_closed_def Let_def assms)

lemma spec_example_matrix:
  assumes "0 < sr"
  shows "clip_IoU [mk_annotation folder file 10 0 10 sr label]
           [mk_annotation folder file 10 0 1 sr label, mk_annotation folder file 10 5 1 sr label]
         = Inr [[1 / 10], [1 / 10]]"
proof -
  obtain m where m: "sr = int m" "0 < m"
    using assms by (metis pos_int_cases)
  let ?a = "mk_annotation folder file 10 0 10 sr label"
  let ?h1 = "mk_annotation folder file 10 0 1 sr label"
  let ?h2 = "mk_annotation folder file 10 5 1 sr label"
  have n: "py_int (CLIP_LENGTH ?a * of_int (SAMPLE_RATE ?a)) = int (10 * m)"
    by (simp add: mk_annotation_def m(1))
  have a: "slice_index (10 * m) (minval (of_int sr) ?a) = 0"
      "slice_index (10 * m) (maxval (of_int sr) ?a) = 10 * m"
    by (simp_all add: minval_def maxval_def mk_annotation_def m(1) slice_index_def)
  have h1: "slice_index (10 * m) (minval (of_int sr) ?h1) = 0"
      "slice_index (10 * m) (maxval (of_int sr) ?h1) = m"
    by (simp_all add: minval_def maxval_def mk_annotation_def m(1) slice_index_def)
  have h2: "slice_index (10 * m) (minval (of_int sr) ?h2) = 5 * m"
      "slice_index (10 * m) (maxval (of_int sr) ?h2) = 6 * m"
    by (simp_all add: minval_def maxval_def mk_annotation_def m(1) slice_index_def)
  have r: "(of_nat m :: rat) / (of_nat m * 10) = 1 / 10" using m(2) by simp
  have e1: "iou_closed (10 * m) sr ?h1 ?a = 1 / 10"
    unfolding iou_closed_bounds[OF h1 a] using m(2) r by (simp add: round_ndigits_tenth)
  have e2: "iou_closed (10 * m) sr ?h2 ?a = 1 / 10"
    unfolding iou_closed_bounds[OF h2 a] using m(2) r by (simp add: round_ndigits_tenth)
  have "clip_IoU [?a] [?h1, ?h2] =
     Inr [[iou_closed (10 * m) sr ?h1 ?a], [iou_closed (10 * m) sr ?h2 ?a]]"
    unfolding clip_IoU_closed list.case n
    by (simp add: mk_annotation_def nat_mult_distrib)
  then show ?thesis by (simp only: e1 e2)
qed

lemma spec_example_scores:
  "matrix_IoU_Scores [[1 / 10], [1 / 10]] (h # hs) (1 / 2) =
     Inr \<lparr>stats_FOLDER = FOLDER h, stats_IN_FILE = IN_FILE h, stats_MANUAL_ID = MANUAL_ID h,
          TRUE_POSITIVE = 0, FALSE_POSITIVE = 1, FALSE_NEGATIVE = 2,
          TRUE_NEGATIVE = None, UNION_COL = None,
          PRECISION = 0, RECALL = 0, F1 = 0, Global_IoU = None\<rparr>"
  by (simp add: matrix_IoU_Scores_def ncols_def automated_label_best_fits_def max_list_def
      max_val_per_column_def column_def iou_ratios_def Let_def)

lemma spec_example_stats:
  assumes "0 < sr"
  shows "clip_IoU_stats [mk_annotation folder file 10 0 10 sr label]
           [mk_annotation folder file 10 0 1 sr label, mk_annotation folder file 10 5 1 sr label]
           (1 / 2)
         = Inr \<lparr>stats_FOLDER = folder, stats_IN_FILE = file, stats_MANUAL_ID = label,
              TRUE_POSITIVE = 0, FALSE_POSITIVE = 1, FALSE_NEGATIVE = 2,
              TRUE_NEGATIVE = None, UNION_COL = None,
              PRECISION = 0, RECALL = 0, F1 = 0, Global_IoU = None\<rparr>"
  unfolding clip_IoU_stats_def spec_example_matrix[OF assms] sum.case spec_example_scores
  by (simp add: mk_annotation_def)

text \<open>
  Claim C3, as amended. One clip of 10 seconds at any positive sample rate, human
  annotations over [0,1] and [5,6] seconds, one automated annotation over [0,10] seconds,
  threshold 0.5: both entries of the IoU matrix are 0.1, and the matcher returns TP = 0,
  FN = 2 and FP = 1 (the one automated column has best fit 0.1, below the threshold, so
  it is counted as a false positive).
\<close>

theorem spec_example_counts:
  assumes "0 < sr"
  shows "clip_IoU [mk_annotation folder file 10 0 10 sr label]
           [mk_annotation folder file 10 0 1 sr label, mk_annotation folder file 10 5 1 sr label]
         = Inr [[1 / 10], [1 / 10]] \<and>
         (\<exists>r. clip_IoU_stats [mk_annotation folder file 10 0 10 sr label]
           [mk_annotation folder file 10 0 1 sr label, mk_annotation folder file 10 5 1 sr label]
           (1 / 2) = Inr r \<and>
           TRUE_POSITIVE r = 0 \<and> FALSE_NEGATIVE r = 2 \<and> FALSE_POSITIVE r = 1)"
  using spec_example_matrix[OF assms] spec_example_stats[OF assms] by simp

theorem spec_example_counts_witness:
  "clip_IoU [mk_annotation ''d/'' ''a.wav'' 10 0 10 44100 ''bird'']
           [mk_annotation ''d/'' ''a.wav'' 10 0 1 44100 ''bird'',
            mk_annotation ''d/'' ''a.wav'' 10 5 1 44100 ''bird'']
         = Inr [[1 / 10], [1 / 10]] \<and>
         (\<exists>r. clip_IoU_stats [mk_annotation ''d/'' ''a.wav'' 10 0 10 44100 ''bird'']
           [mk_annotation ''d/'' ''a.wav'' 10 0 1 44100 ''bird'',
            mk_annotation ''d/'' ''a.wav'' 10 5 1 44100 ''bird'']
           (1 / 2) = Inr r \<and>
           TRUE_POSITIVE r = 0 \<and> FALSE_NEGATIVE r = 2 \<and> FALSE_POSITIVE r = 1)"
  by (rule spec_example_counts) simp

text \<open>
  Claim C3 as stated has FP = 0; at a sample rate of 44100 Hz the count the matcher
  returns is not 0.
\<close>

theorem spec_example_false_positive_counterexample:
  "map_sum id FALSE_POSITIVE
     (clip_IoU_stats [mk_annotation ''d/'' ''a.wav'' 10 0 10 44100 ''bird'']
           [mk_annotation ''d/'' ''a.wav'' 10 0 1 44100 ''bird'',
            mk_annotation ''d/'' ''a.wav'' 10 5 1 44100 ''bird''] (1 / 2)) \<noteq> Inr 0"
proof -
  have "(0::int) < 44100" by simp
  from spec_example_stats[OF this] show ?thesis by simp
qed

subsection \<open>Range, identical and disjoint intervals\<close>

lemma iou_closed_range: "0 \<le> iou_closed n sr h b \<and> iou_closed n sr h b \<le> 1"
proof -
  define lh hh lb hb where "lh = slice_index n (minval (of_int sr) h)"
    and "hh = slice_index n (maxval (of_int sr) h)"
    and "lb = slice_index n (minval (of_int sr) b)"
    and "hb = slice_index n (maxval (of_int sr) b)"
  define inter where "inter = min hh hb - max lh lb"
  define uni where "uni = (hh - lh) + (hb - lb) - inter"
  have eq: "iou_closed n sr h b =
     (if inter = 0 then 0 else round_ndigits 4 (of_nat inter / of_nat uni))"
    unfolding inter_def uni_def
    by (rule iou_closed_bounds) (simp_all add: lh_def hh_def lb_def hb_def)
  show ?thesis
  proof (cases "inter = 0")
    case True
    then show ?thesis by (simp add: eq)
  next
    case False
    have "inter \<le> hh - lh" "inter \<le> hb - lb" unfolding inter_def by linarith+
    then have "inter \<le> uni" unfolding uni_def by linarith
    then have "(of_nat inter :: rat) \<le> of_nat uni" by (simp only: of_nat_le_iff)
    moreover have "(0::rat) < of_nat uni" using False \<open>inter \<le> uni\<close> by simp
    ultimately have "(0::rat) \<le> of_nat inter / of_nat uni" "(of_nat inter :: rat) / of_nat uni \<le> 1"
      by (simp_all add: divide_le_eq_1)
    then show ?thesis using False round_ndigits_bounds by (simp add: eq)
  qed
qed

lemma iou_closed_same:
  assumes "minval (of_int sr) h = minval (of_int sr) b" "maxval (of_int sr) h = maxval (of_int sr) b"
    and "slice_index n (minval (of_int sr) b) < slice_index n (maxval (of_int sr) b)"
  shows "iou_closed n sr h b = 1"
proof -
  define lb hb where "lb = slice_index n (minval (of_int sr) b)"
    and "hb = slice_index n (maxval (of_int sr) b)"
  have lt: "lb < hb" using assms(3) by (simp add: lb_def hb_def)
  have "iou_closed n sr h b =
     (if min hb hb - max lb lb = 0 then 0
      else round_ndigits 4 (of_nat (min hb hb - max lb lb)
                   / of_nat ((hb - lb) + (hb - lb) - (min hb hb - max lb lb))))"
    by (rule iou_closed_bounds) (simp_all add: lb_def hb_def assms(1,2))
  also have "\<dots> = round_ndigits 4 (of_nat (hb - lb) / of_nat (hb - lb))"
    using lt by simp
  also have "(of_nat (hb - lb) :: rat) / of_nat (hb - lb) = 1" using lt by simp
  finally show ?thesis by simp
qed

lemma slice_index_mono_nonneg: "0 \<le> a \<Longrightarrow> a \<le> b \<Longrightarrow> slice_index n a \<le> slice_index n b"
  by (auto simp: slice_index_def)

lemma iou_closed_disjoint:
  assumes "0 \<le> maxval (of_int sr) h" "maxval (of_int sr) h \<le> minval (of_int sr) b"
  shows "iou_closed n sr h b = 0" "iou_closed n sr b h = 0"
proof -
  have le: "slice_index n (maxval (of_int sr) h) \<le> slice_index n (minval (of_int sr) b)"
    using assms by (rule slice_index_mono_nonneg)
  show "iou_closed n sr h b = 0"
    using le by (simp add: iou_closed_def Let_def)
  show "iou_closed n sr b h = 0"
    using le by (simp add: iou_closed_def Let_def)
qed

lemma interval_bounds_disjoint:
  assumes "0 \<le> sr" "0 \<le> OFFSET h" "0 \<le> DURATION h" "OFFSET h + DURATION h \<le> OFFSET b"
  shows "0 \<le> maxval (of_int sr) h" "maxval (of_int sr) h \<le> minval (of_int sr) b"
proof -
  have "of_int 0 \<le> (OFFSET h + DURATION h) * of_int sr" using assms by simp
  then show "0 \<le> maxval (of_int sr) h" unfolding maxval_def by (rule py_round_ge)
  have "(OFFSET h + DURATION h) * of_int sr \<le> OFFSET b * of_int sr"
    using assms by (simp add: mult_right_mono)
  then show "maxval (of_int sr) h \<le> minval (of_int sr) b"
    unfolding maxval_def minval_def by (rule py_round_mono)
qed

lemma clip_IoU_Inr:
  assumes "clip_IoU automated_df manual_df = Inr IoU_Matrix"
  shows "automated_df \<noteq> [] \<and>
         IoU_Matrix = map (\<lambda>h. map (\<lambda>b.
                 iou_closed (nat (py_int (CLIP_LENGTH (hd automated_df) * of_int (SAMPLE_RATE (hd automated_df)))))
                   (SAMPLE_RATE (hd automated_df)) h b) automated_df) manual_df"
  using assms unfolding clip_IoU_closed
  by (cases automated_df) (auto split: if_splits)

text \<open>
  Claim C7, as amended. Every entry of the IoU matrix \<open>clip_IoU\<close> returns lies in
  [0,1]. An entry that compares two annotations with the same offset and duration is 1
  when the annotation covers at least one sample of the clip (its rounded sample range
  \<open>[round(offset * rate), round((offset + duration) * rate))\<close> is not empty inside the
  clip's array). An entry that compares two disjoint intervals (non-negative offsets and
  durations, non-negative sample rate, one interval ending no later than the other
  starts) is 0.
\<close>

theorem clip_IoU_entry_properties:
  assumes "clip_IoU automated_df manual_df = Inr IoU_Matrix"
  shows "(\<forall>row\<in>set IoU_Matrix. \<forall>v\<in>set row. 0 \<le> v \<and> v \<le> 1) \<and>
     (\<forall>i<length manual_df. \<forall>j<length automated_df.
        (OFFSET (manual_df ! i) = OFFSET (automated_df ! j) \<and>
         DURATION (manual_df ! i) = DURATION (automated_df ! j) \<and>
         covers_sample automated_df (automated_df ! j)
           \<longrightarrow> IoU_Matrix ! i ! j = 1) \<and>
        (0 \<le> SAMPLE_RATE (hd automated_df) \<and>
         0 \<le> OFFSET (manual_df ! i) \<and> 0 \<le> DURATION (manual_df ! i) \<and>
         0 \<le> OFFSET (automated_df ! j) \<and> 0 \<le> DURATION (automated_df ! j) \<and>
         (OFFSET (manual_df ! i) + DURATION (manual_df ! i) \<le> OFFSET (automated_df ! j) \<or>
          OFFSET (automated_df ! j) + DURATION (automated_df ! j) \<le> OFFSET (manual_df ! i))
           \<longrightarrow> IoU_Matrix ! i ! j = 0))"
proof -
  define sr where "sr = SAMPLE_RATE (hd automated_df)"
  define n where "n = nat (py_int (CLIP_LENGTH (hd automated_df) * of_int sr))"
  from clip_IoU_Inr[OF assms]
  have ne: "automated_df \<noteq> []"
    and M: "IoU_Matrix = map (\<lambda>h. map (\<lambda>b. iou_closed n sr h b) automated_df) manual_df"
    by (simp_all add: sr_def n_def)
  have range: "\<forall>row\<in>set IoU_Matrix. \<forall>v\<in>set row. 0 \<le> v \<and> v \<le> 1"
    unfolding M using iou_closed_range by auto
  have entry: "IoU_Matrix ! i ! j = iou_closed n sr (manual_df ! i) (automated_df ! j)"
    if "i < length manual_df" "j < length automated_df" for i j
    using that by (simp add: M)
  have cov: "slice_index n (minval (of_int sr) b) < slice_index n (maxval (of_int sr) b)"
    if "covers_sample automated_df b" for b
    using that ne by (cases automated_df) (simp_all add: covers_sample_def Let_def sr_def n_def)
  have same: "IoU_Matrix ! i ! j = 1"
    if "i < length manual_df" "j < length automated_df"
      "OFFSET (manual_df ! i) = OFFSET (automated_df ! j)"
      "DURATION (manual_df ! i) = DURATION (automated_df ! j)"
      "covers_sample automated_df (automated_df ! j)" for i j
    unfolding entry[OF that(1,2)]
  proof (rule iou_closed_same)
    show "minval (of_int sr) (manual_df ! i) = minval (of_int sr) (automated_df ! j)"
      by (simp add: minval_def that(3))
    show "maxval (of_int sr) (manual_df ! i) = maxval (of_int sr) (automated_df ! j)"
      by (simp add: maxval_def that(3,4))
    show "slice_index n (minval (of_int sr) (automated_df ! j))
          < slice_index n (maxval (of_int sr) (automated_df ! j))"
      by (rule cov[OF that(5)])
  qed
  have disj: "IoU_Matrix ! i ! j = 0"
    if "i < length manual_df" "j < length automated_df" "0 \<le> sr"
      "0 \<le> OFFSET (manual_df ! i)" "0 \<le> DURATION (manual_df ! i)"
      "0 \<le> OFFSET (automated_df ! j)" "0 \<le> DURATION (automated_df ! j)"
      "OFFSET (manual_df ! i) + DURATION (manual_df ! i) \<le> OFFSET (automated_df ! j) \<or>
       OFFSET (automated_df ! j) + DURATION (automated_df ! j) \<le> OFFSET (manual_df ! i)" for i j
  proof -
    from that(8) show ?thesis
    proof
      assume a: "OFFSET (manual_df ! i) + DURATION (manual_df ! i) \<le> OFFSET (automated_df ! j)"
      show ?thesis unfolding entry[OF that(1,2)]
        by (rule iou_closed_disjoint(1)[OF interval_bounds_disjoint[OF that(3,4,5) a]])
    next
      assume a: "OFFSET (automated_df ! j) + DURATION (automated_df ! j) \<le> OFFSET (manual_df ! i)"
      show ?thesis unfolding entry[OF that(1,2)]
        by (rule iou_closed_disjoint(2)[OF interval_bounds_disjoint[OF that(3,6,7) a]])
    qed
  qed
  have pair: "(OFFSET (manual_df ! i) = OFFSET (automated_df ! j) \<and>
         DURATION (manual_df ! i) = DURATION (automated_df ! j) \<and>
         covers_sample automated_df (automated_df ! j)
           \<longrightarrow> IoU_Matrix ! i ! j = 1) \<and>
        (0 \<le> SAMPLE_RATE (hd automated_df) \<and>
         0 \<le> OFFSET (manual_df ! i) \<and> 0 \<le> DURATION (manual_df ! i) \<and>
         0 \<le> OFFSET (automated_df ! j) \<and> 0 \<le> DURATION (automated_df ! j) \<and>
         (OFFSET (manual_df ! i) + DURATION (manual_df ! i) \<le> OFFSET (automated_df ! j) \<or>
          OFFSET (automated_df ! j) + DURATION (automated_df ! j) \<le> OFFSET (manual_df ! i))
           \<longrightarrow> IoU_Matrix ! i ! j = 0)"
    if ij: "i < length manual_df" "j < length automated_df" for i j
  proof (intro conjI impI)
    assume h: "OFFSET (manual_df ! i) = OFFSET (automated_df ! j) \<and>
         DURATION (manual_df ! i) = DURATION (automated_df ! j) \<and>
         covers_sample automated_df (automated_df ! j)"
    show "IoU_Matrix ! i ! j = 1"
      by (rule same[OF ij]) (use h in blast)+
  next
    assume h: "0 \<le> SAMPLE_RATE (hd automated_df) \<and>
         0 \<le> OFFSET (manual_df ! i) \<and> 0 \<le> DURATION (manual_df ! i) \<and>
         0 \<le> OFFSET (automated_df ! j) \<and> 0 \<le> DURATION (automated_df ! j) \<and>
         (OFFSET (manual_df ! i) + DURATION (manual_df ! i) \<le> OFFSET (automated_df ! j) \<or>
          OFFSET (automated_df ! j) + DURATION (automated_df ! j) \<le> OFFSET (manual_df ! i))"
    then have "0 \<le> sr" by (simp add: sr_def)
    then show "IoU_Matrix ! i ! j = 0"
      by (rule disj[OF ij]) (use h in blast)+
  qed
  have all: "\<forall>i<length manual_df. \<forall>j<length automated_df.
        (OFFSET (manual_df ! i) = OFFSET (automated_df ! j) \<and>
         DURATION (manual_df ! i) = DURATION (automated_df ! j) \<and>
         covers_sample automated_df (automated_df ! j)
           \<longrightarrow> IoU_Matrix ! i ! j = 1) \<and>
        (0 \<le> SAMPLE_RATE (hd automated_df) \<and>
         0 \<le> OFFSET (manual_df ! i) \<and> 0 \<le> DURATION (manual_df ! i) \<and>
         0 \<le> OFFSET (automated_df ! j) \<and> 0 \<le> DURATION (automated_df ! j) \<and>
         (OFFSET (manual_df ! i) + DURATION (manual_df ! i) \<le> OFFSET (automated_df ! j) \<or>
          OFFSET (automated_df ! j) + DURATION (automated_df ! j) \<le> OFFSET (manual_df ! i))
           \<longrightarrow> IoU_Matrix ! i ! j = 0)"
    by (intro allI impI) (rule pair)
  from range all show ?thesis by (rule conjI)
qed

lemma py_round_eqI:
  assumes "of_int k - 1 / 2 < x" "x < of_int k + 1 / 2"
  shows "py_round x = k"
proof (cases "of_int k \<le> x")
  case True
  have "\<lfloor>x\<rfloor> = k"
    by (rule floor_unique) (use True assms(2) in simp_all)
  then show ?thesis using assms(2) by (simp add: py_round_def Let_def)
next
  case False
  have "\<lfloor>x\<rfloor> = k - 1"
    by (rule floor_unique) (use False assms(1) in simp_all)
  then show ?thesis using assms(1) by (simp add: py_round_def Let_def)
qed

theorem clip_IoU_entry_properties_witness:
  "clip_IoU [mk_annotation ''d/'' ''a.wav'' 10 0 2 2 ''bird'', mk_annotation ''d/'' ''a.wav'' 10 5 1 2 ''bird'']
            [mk_annotation ''d/'' ''a.wav'' 10 0 2 2 ''bird'', mk_annotation ''d/'' ''a.wav'' 10 3 1 2 ''bird'']
     = Inr [[1, 0], [0, 0]] \<and>
   covers_sample [mk_annotation ''d/'' ''a.wav'' 10 0 2 2 ''bird'', mk_annotation ''d/'' ''a.wav'' 10 5 1 2 ''bird'']
     (mk_annotation ''d/'' ''a.wav'' 10 0 2 2 ''bird'') \<and>
   ([[1, 0], [0, 0]] :: rat list list) ! 0 ! 0 = 1 \<and>
   ([[1, 0], [0, 0]] :: rat list list) ! 1 ! 1 = 0"
proof -
  let ?A = "[mk_annotation ''d/'' ''a.wav'' 10 0 2 2 ''bird'', mk_annotation ''d/'' ''a.wav'' 10 5 1 2 ''bird'']"
  let ?H = "[mk_annotation ''d/'' ''a.wav'' 10 0 2 2 ''bird'', mk_annotation ''d/'' ''a.wav'' 10 3 1 2 ''bird'']"
  have e: "clip_IoU ?A ?H = Inr [[1, 0], [0, 0]]"
    by (simp add: clip_IoU_closed mk_annotation_def iou_closed_def minval_def maxval_def
        slice_index_def Let_def)
  have c: "covers_sample ?A (mk_annotation ''d/'' ''a.wav'' 10 0 2 2 ''bird'')"
    by (simp add: covers_sample_def mk_annotation_def minval_def maxval_def slice_index_def Let_def)
  note pr = clip_IoU_entry_properties[OF e, THEN conjunct2, THEN spec, THEN mp, THEN spec, THEN mp]
  have one: "([[1, 0], [0, 0]] :: rat list list) ! 0 ! 0 = 1"
    by (rule pr[THEN conjunct1, THEN mp]) (use c in \<open>simp_all add: mk_annotation_def\<close>)
  have zero: "([[1, 0], [0, 0]] :: rat list list) ! 1 ! 1 = 0"
    by (rule pr[THEN conjunct2, THEN mp]) (simp_all add: mk_annotation_def)
  from e c one zero show ?thesis by (intro conjI)
qed

text \<open>
  Claim C7 as stated promises IoU 1 for any interval of positive duration against
  itself. An annotation of 10 microseconds at 44100 Hz rounds to an empty sample range,
  and the entry is 0.
\<close>

theorem clip_IoU_identical_counterexample:
  "0 < DURATION (mk_annotation ''d/'' ''a.wav'' 10 0 (1 / 100000) 44100 ''bird'') \<and>
   clip_IoU [mk_annotation ''d/'' ''a.wav'' 10 0 (1 / 100000) 44100 ''bird'']
            [mk_annotation ''d/'' ''a.wav'' 10 0 (1 / 100000) 44100 ''bird''] = Inr [[0]]"
proof -
  have r: "py_round (441 / 1000) = 0" by (rule py_round_eqI) simp_all
  show ?thesis
  by (simp add: clip_IoU_closed mk_annotation_def iou_closed_def minval_def maxval_def
        slice_index_def Let_def r)
qed

subsection \<open>A clip without human labels\<close>

text \<open>
  Claim C4 as stated speaks of every IoU matrix. For a clip with an automated label and
  no human label \<open>clip_IoU\<close> builds a matrix without rows; on it the matcher returns
  no counts: it raises \<open>KeyError\<close> on the empty table of human labels, and
  \<open>ValueError\<close> when given a table with a row.
\<close>

theorem matrix_IoU_Scores_no_rows_counterexample:
  "clip_IoU [mk_annotation ''d/'' ''a.wav'' 10 0 1 10 ''bird''] [] = Inr [] \<and>
   matrix_IoU_Scores [] [] (1 / 2) = Inl KeyError \<and>
   matrix_IoU_Scores [] [mk_annotation ''d/'' ''a.wav'' 10 0 1 10 ''bird''] (1 / 2)
     = Inl ValueError"
  by (simp add: clip_IoU_def matrix_IoU_Scores_def mk_annotation_def Let_def)

section \<open>Properties of the driver\<close>

subsection \<open>Pairing the tables of a clip\<close>









text \<open>
  The test is \<open>startswith\<close> on the clip's stem, so a longer name that begins with the
  stem is selected too.
\<close>

lemma clip_manual_rows_longer_name:
  "map IN_FILE (clip_manual_rows
      [mk_annotation ''d/'' ''rec10.wav'' 10 0 1 10 ''bird''] ''rec1.wav'') = [''rec10.wav'']"
  by (simp add: clip_manual_rows_def mk_annotation_def clip_stem_def startswith_def)

subsection \<open>Failure of one clip\<close>

lemma fold_process_clip:
  "fold (process_clip automated_df manual_df stats_type threshold) clips st =
     \<lparr>loop_statistics_df = loop_statistics_df st @
        concat (map (\<lambda>clip. case clip_step stats_type threshold
                (clip_automated_rows automated_df clip) (clip_manual_rows manual_df clip) of
              Inr row \<Rightarrow> [row] | Inl e \<Rightarrow> []) clips),
      num_errors = num_errors st + length (filter (\<lambda>clip. isl (clip_step stats_type threshold
                (clip_automated_rows automated_df clip) (clip_manual_rows manual_df clip))) clips),
      num_processed = num_processed st + length clips\<rparr>"
proof (induction clips arbitrary: st)
  case Nil
  then show ?case by simp
next
  case (Cons clip clips)
  show ?case
  proof (cases "clip_step stats_type threshold
                (clip_automated_rows automated_df clip) (clip_manual_rows manual_df clip)")
    case (Inl e)
    then have "process_clip automated_df manual_df stats_type threshold clip st
        = st\<lparr>num_errors := num_errors st + 1, num_processed := num_processed st + 1\<rparr>"
      by (simp add: process_clip_def)
    then show ?thesis using Inl by (simp add: Cons)
  next
    case (Inr row)
    then have "process_clip automated_df manual_df stats_type threshold clip st
        = st\<lparr>loop_statistics_df := loop_statistics_df st @ [row],
             num_processed := num_processed st + 1\<rparr>"
      by (simp add: process_clip_def)
    then show ?thesis using Inr by (simp add: Cons)
  qed
qed

lemma set_unique_acc: "set (unique_acc seen xs) = set xs - set seen"
  by (induction seen xs rule: unique_acc.induct) auto

lemma set_unique: "set (unique xs) = set xs"
  by (simp add: unique_def set_unique_acc)

text \<open>
  The loop itself isolates a failing clip: it adds no row, counts the error and goes on
  (\<open>fold_process_clip\<close>). The report after the loop does not: as soon as one clip
  has failed, the function raises instead of returning the rows of the other clips.
\<close>

lemma automated_labeling_statistics_failed_clip:
  assumes "stats_type = ''IoU'' \<or> stats_type = ''general''" "0 < threshold" "threshold < 1"
    and "clip \<in> set (map IN_FILE automated_df)"
    and "isl (clip_step stats_type threshold
                (clip_automated_rows automated_df clip) (clip_manual_rows manual_df clip))"
  shows "automated_labeling_statistics automated_df manual_df stats_type threshold verbose
         = Inl TypeError"
proof -
  let ?fails = "\<lambda>clip. isl (clip_step stats_type threshold
                (clip_automated_rows automated_df clip) (clip_manual_rows manual_df clip))"
  have "clip \<in> set (filter ?fails (unique (map IN_FILE automated_df)))"
    using assms(4,5) by (simp add: set_unique)
  then have "0 < length (filter ?fails (unique (map IN_FILE automated_df)))"
    by (rule length_pos_if_in_set)
  then have "0 < num_errors (process_clips automated_df manual_df stats_type threshold)"
    by (simp add: process_clips_def fold_process_clip)
  then show ?thesis
    using assms(1-3) by (auto simp: automated_labeling_statistics_def Let_def)
qed

lemma automated_labeling_statistics_returns:
  assumes "automated_labeling_statistics automated_df manual_df stats_type threshold verbose
         = Inr rows"
  shows "\<forall>clip\<in>set (map IN_FILE automated_df). \<not> isl (clip_step stats_type threshold
                (clip_automated_rows automated_df clip) (clip_manual_rows manual_df clip))"
proof -
  have a: "stats_type = ''IoU'' \<or> stats_type = ''general''" "0 < threshold" "threshold < 1"
    using assms by (auto simp: automated_labeling_statistics_def split: if_splits)
  show ?thesis
    using automated_labeling_statistics_failed_clip[OF a, of _ automated_df manual_df verbose] assms
    by auto
qed

text \<open>
  Claim C1. The claim has the run complete and report the error count when a clip fails.
  Two clips, the first without a human label (its step raises \<open>KeyError\<close>): the loop
  skips it, counts one error, processes the second clip and holds its row; then the
  function raises \<open>TypeError\<close> while building the report, with \<open>verbose\<close> on or
  off, and the row is lost.
\<close>

theorem automated_labeling_statistics_report_raises:
  "process_clips
      [mk_annotation ''d/'' ''a.wav'' 10 0 1 10 ''bird'',
       mk_annotation ''d/'' ''b.wav'' 10 0 1 10 ''bird'']
      [mk_annotation ''d/'' ''b.wav'' 10 0 1 10 ''bird''] ''IoU'' (1 / 2)
    = \<lparr>loop_statistics_df =
         [\<lparr>stats_FOLDER = ''d/'', stats_IN_FILE = ''b.wav'', stats_MANUAL_ID = ''bird'',
           TRUE_POSITIVE = 1, FALSE_POSITIVE = 0, FALSE_NEGATIVE = 0,
           TRUE_NEGATIVE = None, UNION_COL = None,
           PRECISION = 1, RECALL = 1, F1 = 1, Global_IoU = None\<rparr>],
        num_errors = 1, num_processed = 2\<rparr> \<and>
   automated_labeling_statistics
      [mk_annotation ''d/'' ''a.wav'' 10 0 1 10 ''bird'',
       mk_annotation ''d/'' ''b.wav'' 10 0 1 10 ''bird'']
      [mk_annotation ''d/'' ''b.wav'' 10 0 1 10 ''bird''] ''IoU'' (1 / 2) True = Inl TypeError \<and>
   automated_labeling_statistics
      [mk_annotation ''d/'' ''a.wav'' 10 0 1 10 ''bird'',
       mk_annotation ''d/'' ''b.wav'' 10 0 1 10 ''bird'']
      [mk_annotation ''d/'' ''b.wav'' 10 0 1 10 ''bird''] ''IoU'' (1 / 2) False = Inl TypeError"
  by code_simp

section \<open>Properties of the global statistics\<close>

lemma global_ratios_micro:
  "global_ratios rows = (micro_precision rows, micro_recall rows, micro_f1 rows)"
  by (simp add: global_ratios_def micro_precision_def micro_recall_def micro_f1_def Let_def)

lemma micro_precision_finite:
  "sum_list (map TRUE_POSITIVE rows) + sum_list (map FALSE_POSITIVE rows) \<noteq> 0 \<Longrightarrow>
   micro_precision rows = Finite (sum_list (map TRUE_POSITIVE rows)
       / (sum_list (map TRUE_POSITIVE rows) + sum_list (map FALSE_POSITIVE rows)))"
  by (simp add: micro_precision_def)

lemma micro_recall_finite:
  "sum_list (map TRUE_POSITIVE rows) + sum_list (map FALSE_NEGATIVE rows) \<noteq> 0 \<Longrightarrow>
   micro_recall rows = Finite (sum_list (map TRUE_POSITIVE rows)
       / (sum_list (map TRUE_POSITIVE rows) + sum_list (map FALSE_NEGATIVE rows)))"
  by (simp add: micro_recall_def)

lemma global_statistics_micro:
  assumes "rows \<noteq> []"
  shows "global_statistics rows manual_id =
     Inr \<lparr>global_MANUAL_ID = manual_id,
          global_TRUE_POSITIVE = sum_list (map TRUE_POSITIVE rows),
          global_FALSE_NEGATIVE = sum_list (map FALSE_NEGATIVE rows),
          global_FALSE_POSITIVE = sum_list (map FALSE_POSITIVE rows),
          global_PRECISION = np_round 4 (micro_precision rows),
          global_RECALL = np_round 4 (micro_recall rows),
          global_F1 = np_round 4 (micro_f1 rows)\<rparr>"
  using assms by (simp add: global_statistics_def global_ratios_micro Let_def)

lemma global_dataset_statistics_micro:
  assumes "rows \<noteq> []" "list_ex (\<lambda>r. TRUE_NEGATIVE r \<noteq> None) rows"
    "list_ex (\<lambda>r. UNION_COL r \<noteq> None) rows"
  shows "global_dataset_statistics rows manual_id =
     Inr \<lparr>dataset_MANUAL_ID = manual_id,
          dataset_PRECISION = np_round 6 (micro_precision rows),
          dataset_RECALL = np_round 6 (micro_recall rows),
          dataset_F1 = np_round 6 (micro_f1 rows),
          dataset_Global_IoU = np_round 6 (np_div (Finite (sum_list (map TRUE_POSITIVE rows)))
             (Finite (sum_present (map UNION_COL rows))))\<rparr>"
  using assms by (simp add: global_dataset_statistics_def global_ratios_micro Let_def)

lemma collect_results_Inr: "collect_results (map Inr xs) = Inr xs"
  by (induction xs) simp_all

lemma class_rows_nonempty:
  "class \<in> set (map stats_MANUAL_ID rows) \<Longrightarrow> class_rows rows class \<noteq> []"
  by (auto simp: class_rows_def filter_empty_conv)

lemma class_statistics_micro:
  assumes "rows \<noteq> []"
  shows "class_statistics rows =
     Inr (map (\<lambda>class.
          \<lparr>global_MANUAL_ID = class,
           global_TRUE_POSITIVE = sum_list (map TRUE_POSITIVE (class_rows rows class)),
           global_FALSE_NEGATIVE = sum_list (map FALSE_NEGATIVE (class_rows rows class)),
           global_FALSE_POSITIVE = sum_list (map FALSE_POSITIVE (class_rows rows class)),
           global_PRECISION = np_round 4 (micro_precision (class_rows rows class)),
           global_RECALL = np_round 4 (micro_recall (class_rows rows class)),
           global_F1 = np_round 4 (micro_f1 (class_rows rows class))\<rparr>)
        (unique (map stats_MANUAL_ID rows)))"
proof -
  have eq: "map (\<lambda>class. global_statistics (class_rows rows class) class)
            (unique (map stats_MANUAL_ID rows))
      = map Inr (map (\<lambda>class.
          \<lparr>global_MANUAL_ID = class,
           global_TRUE_POSITIVE = sum_list (map TRUE_POSITIVE (class_rows rows class)),
           global_FALSE_NEGATIVE = sum_list (map FALSE_NEGATIVE (class_rows rows class)),
           global_FALSE_POSITIVE = sum_list (map FALSE_POSITIVE (class_rows rows class)),
           global_PRECISION = np_round 4 (micro_precision (class_rows rows class)),
           global_RECALL = np_round 4 (micro_recall (class_rows rows class)),
           global_F1 = np_round 4 (micro_f1 (class_rows rows class))\<rparr>)
        (unique (map stats_MANUAL_ID rows)))"
    unfolding map_map comp_def
  proof (rule map_cong[OF refl])
    fix c assume "c \<in> set (unique (map stats_MANUAL_ID rows))"
    then have "c \<in> set (map stats_MANUAL_ID rows)"
      by (simp add: set_unique)
    then have "class_rows rows c \<noteq> []" by (rule class_rows_nonempty)
    then show "global_statistics (class_rows rows c) c =
       Inr \<lparr>global_MANUAL_ID = c,
           global_TRUE_POSITIVE = sum_list (map TRUE_POSITIVE (class_rows rows c)),
           global_FALSE_NEGATIVE = sum_list (map FALSE_NEGATIVE (class_rows rows c)),
           global_FALSE_POSITIVE = sum_list (map FALSE_POSITIVE (class_rows rows c)),
           global_PRECISION = np_round 4 (micro_precision (class_rows rows c)),
           global_RECALL = np_round 4 (micro_recall (class_rows rows c)),
           global_F1 = np_round 4 (micro_f1 (class_rows rows c))\<rparr>"
      by (rule global_statistics_micro)
  qed
  show ?thesis
    unfolding class_statistics_def eq collect_results_Inr using assms by simp
qed

lemma class_statistics_fields:
  assumes "rows \<noteq> []"
  shows "\<exists>gs. class_statistics rows = Inr gs \<and>
           map global_MANUAL_ID gs = unique (map stats_MANUAL_ID rows) \<and>
           (\<forall>g\<in>set gs.
              global_PRECISION g = np_round 4 (micro_precision (class_rows rows (global_MANUAL_ID g))) \<and>
              global_RECALL g = np_round 4 (micro_recall (class_rows rows (global_MANUAL_ID g))) \<and>
              global_F1 g = np_round 4 (micro_f1 (class_rows rows (global_MANUAL_ID g))))"
  unfolding class_statistics_micro[OF assms]
  by (rule exI, intro conjI, rule refl) (auto simp: comp_def)

lemma ratio_columns_counts:
  "map TRUE_POSITIVE (map (\<lambda>r. r\<lparr>PRECISION := p r, RECALL := q r, F1 := f r\<rparr>) rows) = map TRUE_POSITIVE rows"
  "map FALSE_POSITIVE (map (\<lambda>r. r\<lparr>PRECISION := p r, RECALL := q r, F1 := f r\<rparr>) rows) = map FALSE_POSITIVE rows"
  "map FALSE_NEGATIVE (map (\<lambda>r. r\<lparr>PRECISION := p r, RECALL := q r, F1 := f r\<rparr>) rows) = map FALSE_NEGATIVE rows"
  "map UNION_COL (map (\<lambda>r. r\<lparr>PRECISION := p r, RECALL := q r, F1 := f r\<rparr>) rows) = map UNION_COL rows"
  "map TRUE_NEGATIVE (map (\<lambda>r. r\<lparr>PRECISION := p r, RECALL := q r, F1 := f r\<rparr>) rows) = map TRUE_NEGATIVE rows"
  "map stats_MANUAL_ID (map (\<lambda>r. r\<lparr>PRECISION := p r, RECALL := q r, F1 := f r\<rparr>) rows) = map stats_MANUAL_ID rows"
  by (simp_all add: comp_def)

lemma list_ex_ratio_columns:
  "list_ex (\<lambda>r. TRUE_NEGATIVE r \<noteq> None) (map (\<lambda>r. r\<lparr>PRECISION := p r, RECALL := q r, F1 := f r\<rparr>) rows)
     = list_ex (\<lambda>r. TRUE_NEGATIVE r \<noteq> None) rows"
  "list_ex (\<lambda>r. UNION_COL r \<noteq> None) (map (\<lambda>r. r\<lparr>PRECISION := p r, RECALL := q r, F1 := f r\<rparr>) rows)
     = list_ex (\<lambda>r. UNION_COL r \<noteq> None) rows"
  by (simp_all add: list_ex_iff)

lemma global_ratios_ratio_columns:
  "global_ratios (map (\<lambda>r. r\<lparr>PRECISION := p r, RECALL := q r, F1 := f r\<rparr>) rows) = global_ratios rows"
  by (simp only: global_ratios_def ratio_columns_counts)

lemma global_statistics_ratio_columns:
  "global_statistics (map (\<lambda>r. r\<lparr>PRECISION := p r, RECALL := q r, F1 := f r\<rparr>) rows) manual_id
   = global_statistics rows manual_id"
  by (simp only: global_statistics_def global_ratios_ratio_columns ratio_columns_counts map_is_Nil_conv)

lemma global_dataset_statistics_ratio_columns:
  "global_dataset_statistics (map (\<lambda>r. r\<lparr>PRECISION := p r, RECALL := q r, F1 := f r\<rparr>) rows) manual_id
   = global_dataset_statistics rows manual_id"
  by (simp only: global_dataset_statistics_def global_ratios_ratio_columns ratio_columns_counts
      list_ex_ratio_columns map_is_Nil_conv)

lemma class_rows_ratio_columns:
  "class_rows (map (\<lambda>r. r\<lparr>PRECISION := p r, RECALL := q r, F1 := f r\<rparr>) rows) c
   = map (\<lambda>r. r\<lparr>PRECISION := p r, RECALL := q r, F1 := f r\<rparr>) (class_rows rows c)"
  by (simp add: class_rows_def filter_map comp_def)

lemma class_statistics_ratio_columns:
  "class_statistics (map (\<lambda>r. r\<lparr>PRECISION := p r, RECALL := q r, F1 := f r\<rparr>) rows)
   = class_statistics rows"
  by (simp only: class_statistics_def class_rows_ratio_columns global_statistics_ratio_columns
      ratio_columns_counts map_is_Nil_conv)

text \<open>
  Claim C5. For every non-empty table of per-clip rows, the three ratios that
  \<open>global_statistics\<close> and \<open>global_dataset_statistics\<close> compute are the micro-averaged
  ones: the TP, FP and FN counts are summed over the rows first, and precision =
  sum TP / (sum TP + sum FP), recall = sum TP / (sum TP + sum FN) and F1 are computed from
  the sums. The rows returned hold them rounded to four decimals (\<open>global_statistics\<close>,
  and \<open>class_statistics\<close> on the rows of each class) or six
  (\<open>global_dataset_statistics\<close>). The per-clip ratio columns are never read: replacing
  them by anything leaves all three results unchanged.
\<close>

theorem global_metrics_micro_averaged:
  assumes "statistics_df \<noteq> []"
  shows "global_ratios statistics_df =
           (micro_precision statistics_df, micro_recall statistics_df, micro_f1 statistics_df) \<and>
    (\<exists>g. global_statistics statistics_df manual_id = Inr g \<and>
         global_TRUE_POSITIVE g = sum_list (map TRUE_POSITIVE statistics_df) \<and>
         global_FALSE_POSITIVE g = sum_list (map FALSE_POSITIVE statistics_df) \<and>
         global_FALSE_NEGATIVE g = sum_list (map FALSE_NEGATIVE statistics_df) \<and>
         global_PRECISION g = np_round 4 (micro_precision statistics_df) \<and>
         global_RECALL g = np_round 4 (micro_recall statistics_df) \<and>
         global_F1 g = np_round 4 (micro_f1 statistics_df)) \<and>
    (list_ex (\<lambda>r. TRUE_NEGATIVE r \<noteq> None) statistics_df \<and>
     list_ex (\<lambda>r. UNION_COL r \<noteq> None) statistics_df \<longrightarrow>
       (\<exists>d. global_dataset_statistics statistics_df manual_id = Inr d \<and>
         dataset_PRECISION d = np_round 6 (micro_precision statistics_df) \<and>
         dataset_RECALL d = np_round 6 (micro_recall statistics_df) \<and>
         dataset_F1 d = np_round 6 (micro_f1 statistics_df))) \<and>
    (\<exists>gs. class_statistics statistics_df = Inr gs \<and>
         map global_MANUAL_ID gs = unique (map stats_MANUAL_ID statistics_df) \<and>
         (\<forall>g\<in>set gs.
            global_PRECISION g
              = np_round 4 (micro_precision (class_rows statistics_df (global_MANUAL_ID g))) \<and>
            global_RECALL g
              = np_round 4 (micro_recall (class_rows statistics_df (global_MANUAL_ID g))) \<and>
            global_F1 g
              = np_round 4 (micro_f1 (class_rows statistics_df (global_MANUAL_ID g))))) \<and>
    global_statistics
        (map (\<lambda>r. r\<lparr>PRECISION := p r, RECALL := q r, F1 := f r\<rparr>) statistics_df) manual_id
      = global_statistics statistics_df manual_id \<and>
    global_dataset_statistics
        (map (\<lambda>r. r\<lparr>PRECISION := p r, RECALL := q r, F1 := f r\<rparr>) statistics_df) manual_id
      = global_dataset_statistics statistics_df manual_id \<and>
    class_statistics (map (\<lambda>r. r\<lparr>PRECISION := p r, RECALL := q r, F1 := f r\<rparr>) statistics_df)
      = class_statistics statistics_df"
proof (intro conjI)
  show "global_ratios statistics_df =
           (micro_precision statistics_df, micro_recall statistics_df, micro_f1 statistics_df)"
    by (rule global_ratios_micro)
  show "\<exists>g. global_statistics statistics_df manual_id = Inr g \<and>
         global_TRUE_POSITIVE g = sum_list (map TRUE_POSITIVE statistics_df) \<and>
         global_FALSE_POSITIVE g = sum_list (map FALSE_POSITIVE statistics_df) \<and>
         global_FALSE_NEGATIVE g = sum_list (map FALSE_NEGATIVE statistics_df) \<and>
         global_PRECISION g = np_round 4 (micro_precision statistics_df) \<and>
         global_RECALL g = np_round 4 (micro_recall statistics_df) \<and>
         global_F1 g = np_round 4 (micro_f1 statistics_df)"
    by (simp add: global_statistics_micro[OF assms])
  show "list_ex (\<lambda>r. TRUE_NEGATIVE r \<noteq> None) statistics_df \<and>
     list_ex (\<lambda>r. UNION_COL r \<noteq> None) statistics_df \<longrightarrow>
       (\<exists>d. global_dataset_statistics statistics_df manual_id = Inr d \<and>
         dataset_PRECISION d = np_round 6 (micro_precision statistics_df) \<and>
         dataset_RECALL d = np_round 6 (micro_recall statistics_df) \<and>
         dataset_F1 d = np_round 6 (micro_f1 statistics_df))"
  proof
    assume "list_ex (\<lambda>r. TRUE_NEGATIVE r \<noteq> None) statistics_df \<and>
     list_ex (\<lambda>r. UNION_COL r \<noteq> None) statistics_df"
    then have c: "list_ex (\<lambda>r. TRUE_NEGATIVE r \<noteq> None) statistics_df"
      "list_ex (\<lambda>r. UNION_COL r \<noteq> None) statistics_df" by blast+
    show "\<exists>d. global_dataset_statistics statistics_df manual_id = Inr d \<and>
         dataset_PRECISION d = np_round 6 (micro_precision statistics_df) \<and>
         dataset_RECALL d = np_round 6 (micro_recall statistics_df) \<and>
         dataset_F1 d = np_round 6 (micro_f1 statistics_df)"
      by (simp add: global_dataset_statistics_micro[OF assms c])
  qed
  show "\<exists>gs. class_statistics statistics_df = Inr gs \<and>
         map global_MANUAL_ID gs = unique (map stats_MANUAL_ID statistics_df) \<and>
         (\<forall>g\<in>set gs.
            global_PRECISION g
              = np_round 4 (micro_precision (class_rows statistics_df (global_MANUAL_ID g))) \<and>
            global_RECALL g
              = np_round 4 (micro_recall (class_rows statistics_df (global_MANUAL_ID g))) \<and>
            global_F1 g
              = np_round 4 (micro_f1 (class_rows statistics_df (global_MANUAL_ID g))))"
    by (rule class_statistics_fields[OF assms])
  show "global_statistics
        (map (\<lambda>r. r\<lparr>PRECISION := p r, RECALL := q r, F1 := f r\<rparr>) statistics_df) manual_id
      = global_statistics statistics_df manual_id"
    by (rule global_statistics_ratio_columns)
  show "global_dataset_statistics
        (map (\<lambda>r. r\<lparr>PRECISION := p r, RECALL := q r, F1 := f r\<rparr>) statistics_df) manual_id
      = global_dataset_statistics statistics_df manual_id"
    by (rule global_dataset_statistics_ratio_columns)
  show "class_statistics (map (\<lambda>r. r\<lparr>PRECISION := p r, RECALL := q r, F1 := f r\<rparr>) statistics_df)
      = class_statistics statistics_df"
    by (rule class_statistics_ratio_columns)
qed

lemma round_ndigits_two_thirds: "round_ndigits 4 (2 / 3) = 6667 / 10000"
proof -
  have "py_round (2 / 3 * 10 ^ 4) = 6667" by (rule py_round_eqI) simp_all
  then show ?thesis by (simp add: round_ndigits_def)
qed

lemma round_ndigits_two_fifths: "round_ndigits 4 (2 / 5) = 2 / 5"
proof -
  have "(2 / 5 * 10 ^ 4 :: rat) = 4000" by simp
  then have "py_round (2 / 5 * 10 ^ 4) = 4000" by (simp only: py_round_numeral)
  then show ?thesis by (simp add: round_ndigits_def)
qed

lemma round_ndigits_half: "round_ndigits 4 (1 / 2) = 1 / 2"
proof -
  have "(1 / 2 * 10 ^ 4 :: rat) = 5000" by simp
  then have "py_round (1 / 2 * 10 ^ 4) = 5000" by (simp only: py_round_numeral)
  then show ?thesis by (simp add: round_ndigits_def)
qed

text \<open>
  Two clips on which the two ways of averaging differ: the sums are TP 2, FP 3, FN 1,
  so the micro-averaged precision is 0.4, the recall 0.6667 and F1 0.5, while the means
  of the per-clip ratios are 0.625, 0.75 and 2/3.
\<close>

theorem global_metrics_micro_averaged_witness:
  "(\<exists>g. global_statistics
          [mk_stats ''a.wav'' ''bird'' 1 0 0 1 1 1,
           mk_stats ''b.wav'' ''bird'' 1 3 1 (1 / 4) (1 / 2) (1 / 3)] ''N/A'' = Inr g \<and>
        global_PRECISION g = Finite (2 / 5) \<and>
        global_RECALL g = Finite (6667 / 10000) \<and>
        global_F1 g = Finite (1 / 2)) \<and>
   macro_precision [mk_stats ''a.wav'' ''bird'' 1 0 0 1 1 1,
           mk_stats ''b.wav'' ''bird'' 1 3 1 (1 / 4) (1 / 2) (1 / 3)] = 5 / 8 \<and>
   macro_recall [mk_stats ''a.wav'' ''bird'' 1 0 0 1 1 1,
           mk_stats ''b.wav'' ''bird'' 1 3 1 (1 / 4) (1 / 2) (1 / 3)] = 3 / 4 \<and>
   macro_f1 [mk_stats ''a.wav'' ''bird'' 1 0 0 1 1 1,
           mk_stats ''b.wav'' ''bird'' 1 3 1 (1 / 4) (1 / 2) (1 / 3)] = 2 / 3"
proof -
  let ?rows = "[mk_stats ''a.wav'' ''bird'' 1 0 0 1 1 1,
           mk_stats ''b.wav'' ''bird'' 1 3 1 (1 / 4) (1 / 2) (1 / 3)]"
  have ne: "?rows \<noteq> []" by simp
  have p: "micro_precision ?rows = Finite (2 / 5)"
    and r: "micro_recall ?rows = Finite (2 / 3)"
    by (simp_all add: micro_precision_def micro_recall_def mk_stats_def)
  have f: "micro_f1 ?rows = Finite (1 / 2)"
    by (simp add: micro_f1_def p r)
  from global_metrics_micro_averaged[OF ne, of "''N/A''"]
  obtain g where g: "global_statistics ?rows ''N/A'' = Inr g"
      "global_PRECISION g = np_round 4 (micro_precision ?rows)"
      "global_RECALL g = np_round 4 (micro_recall ?rows)"
      "global_F1 g = np_round 4 (micro_f1 ?rows)"
    by blast
  have "global_PRECISION g = Finite (2 / 5)" "global_RECALL g = Finite (6667 / 10000)"
    "global_F1 g = Finite (1 / 2)"
    unfolding g(2-4) p r f
    by (simp_all add: round_ndigits_two_thirds round_ndigits_two_fifths round_ndigits_half)
  moreover have "macro_precision ?rows = 5 / 8" "macro_recall ?rows = 3 / 4" "macro_f1 ?rows = 2 / 3"
    by (simp_all add: macro_precision_def macro_recall_def macro_f1_def mk_stats_def)
  ultimately show ?thesis using g(1) by blast
qed

section \<open>Properties of the chunker\<close>

subsection \<open>The window test\<close>

lemma set_slice_nth:
  "i < length arr \<Longrightarrow>
   set_slice arr s e ! i =
     (if slice_index (length arr) s \<le> i \<and> i < slice_index (length arr) e then 1 else arr ! i)"
  by (simp add: set_slice_def Let_def)

lemma raster_fold_length:
  "length (fold (\<lambda>a arr. set_slice arr (minval r a) (maxval r a)) rows arr) = length arr"
  by (induction rows arbitrary: arr) (simp_all add: length_set_slice)

lemma raster_fold_nth:
  "i < length arr \<Longrightarrow>
   fold (\<lambda>a arr. set_slice arr (minval r a) (maxval r a)) rows arr ! i =
     (if \<exists>a\<in>set rows. slice_index (length arr) (minval r a) \<le> i \<and>
                        i < slice_index (length arr) (maxval r a)
      then 1 else arr ! i)"
proof (induction rows arbitrary: arr)
  case Nil
  then show ?case by simp
next
  case (Cons a rows)
  have l: "i < length (set_slice arr (minval r a) (maxval r a))"
    using Cons.prems by (simp add: length_set_slice)
  show ?case
    using Cons.IH[OF l] Cons.prems
    by (auto simp: length_set_slice set_slice_nth)
qed

lemma length_raster_all: "length (raster_all n r rows) = n"
  by (simp add: raster_all_def raster_fold_length)

lemma raster_all_nth:
  "i < n \<Longrightarrow>
   raster_all n r rows ! i =
     (if \<exists>a\<in>set rows. slice_index n (minval r a) \<le> i \<and> i < slice_index n (maxval r a)
      then 1 else 0)"
  by (simp add: raster_all_def raster_fold_nth)

lemma length_get_slice:
  "length (get_slice arr s e) = slice_index (length arr) e - slice_index (length arr) s"
proof -
  have "slice_index (length arr) e \<le> length arr" by (rule slice_index_le)
  then show ?thesis by (auto simp: get_slice_def Let_def)
qed

lemma get_slice_empty_iff:
  "get_slice arr s e = [] \<longleftrightarrow> slice_index (length arr) e \<le> slice_index (length arr) s"
  using length_get_slice[of arr s e] by (metis diff_is_0_eq length_0_conv)

lemma set_get_slice:
  "set (get_slice arr s e) =
     {arr ! i | i. slice_index (length arr) s \<le> i \<and> i < slice_index (length arr) e}"
proof -
  define lo hi where "lo = slice_index (length arr) s" and "hi = slice_index (length arr) e"
  have hi: "hi \<le> length arr" unfolding hi_def by (rule slice_index_le)
  have "set (take (hi - lo) (drop lo arr)) = {arr ! i | i. lo \<le> i \<and> i < hi}"
  proof (intro set_eqI iffI)
    fix x assume "x \<in> set (take (hi - lo) (drop lo arr))"
    then obtain j where j: "j < length (take (hi - lo) (drop lo arr))"
        "x = take (hi - lo) (drop lo arr) ! j"
      by (metis in_set_conv_nth)
    then have "j < hi - lo" "lo + j < length arr" using hi by auto
    then have "x = arr ! (lo + j)" using j by simp
    then show "x \<in> {arr ! i | i. lo \<le> i \<and> i < hi}"
      using \<open>j < hi - lo\<close> by (intro CollectI exI[of _ "lo + j"]) auto
  next
    fix x assume "x \<in> {arr ! i | i. lo \<le> i \<and> i < hi}"
    then obtain i where i: "x = arr ! i" "lo \<le> i" "i < hi" by blast
    then have "i - lo < length (take (hi - lo) (drop lo arr))" using hi by auto
    moreover have "take (hi - lo) (drop lo arr) ! (i - lo) = x" using i hi by simp
    ultimately show "x \<in> set (take (hi - lo) (drop lo arr))"
      by (metis nth_mem)
  qed
  then show ?thesis by (simp add: get_slice_def Let_def lo_def hi_def)
qed

lemma window_test:
  assumes "get_slice (raster_all n 1000 rows) s e \<noteq> []"
  shows "(1 / 2 \<le> max_list (get_slice (raster_all n 1000 rows) s e)) = window_hit n rows s e"
proof -
  let ?arr = "raster_all n 1000 rows"
  define lo hi where "lo = slice_index n s" and "hi = slice_index n e"
  have hi: "hi \<le> n" unfolding hi_def by (rule slice_index_le)
  have M: "max_list (get_slice ?arr s e) = Max (set (get_slice ?arr s e))"
    using assms by (rule max_list_Max)
  have "(1 / 2 \<le> Max (set (get_slice ?arr s e))) = (\<exists>v\<in>set (get_slice ?arr s e). 1 / 2 \<le> v)"
    by (rule Max_ge_iff) (use assms in simp_all)
  also have "\<dots> = (\<exists>i. lo \<le> i \<and> i < hi \<and> 1 / 2 \<le> ?arr ! i)"
    unfolding set_get_slice length_raster_all lo_def hi_def by blast
  also have "\<dots> = (\<exists>i. lo \<le> i \<and> i < hi \<and>
       (\<exists>a\<in>set rows. slice_index n (minval 1000 a) \<le> i \<and> i < slice_index n (maxval 1000 a)))"
  proof (intro iff_exI conj_cong refl)
    fix i assume "i < hi"
    then have "i < n" using hi by simp
    then show "(1 / 2 \<le> ?arr ! i) =
       (\<exists>a\<in>set rows. slice_index n (minval 1000 a) \<le> i \<and> i < slice_index n (maxval 1000 a))"
      by (simp add: raster_all_nth)
  qed
  also have "\<dots> = (\<exists>a\<in>set rows. max lo (slice_index n (minval 1000 a))
                   < min hi (slice_index n (maxval 1000 a)))"
  proof
    assume "\<exists>i. lo \<le> i \<and> i < hi \<and>
       (\<exists>a\<in>set rows. slice_index n (minval 1000 a) \<le> i \<and> i < slice_index n (maxval 1000 a))"
    then obtain i a where "lo \<le> i" "i < hi" "a \<in> set rows"
       "slice_index n (minval 1000 a) \<le> i" "i < slice_index n (maxval 1000 a)" by blast
    then show "\<exists>a\<in>set rows. max lo (slice_index n (minval 1000 a))
                   < min hi (slice_index n (maxval 1000 a))"
      by (intro bexI[of _ a]) auto
  next
    assume "\<exists>a\<in>set rows. max lo (slice_index n (minval 1000 a))
                   < min hi (slice_index n (maxval 1000 a))"
    then obtain a where a: "a \<in> set rows" "max lo (slice_index n (minval 1000 a))
                   < min hi (slice_index n (maxval 1000 a))" by blast
    show "\<exists>i. lo \<le> i \<and> i < hi \<and>
       (\<exists>a\<in>set rows. slice_index n (minval 1000 a) \<le> i \<and> i < slice_index n (maxval 1000 a))"
    proof (intro exI[of _ "max lo (slice_index n (minval 1000 a))"] conjI bexI[of _ a])
      show "lo \<le> max lo (slice_index n (minval 1000 a))" by simp
      show "max lo (slice_index n (minval 1000 a)) < hi" using a(2) by simp
      show "slice_index n (minval 1000 a) \<le> max lo (slice_index n (minval 1000 a))" by simp
      show "max lo (slice_index n (minval 1000 a)) < slice_index n (maxval 1000 a)"
        using a(2) by simp
      show "a \<in> set rows" by (rule a(1))
    qed
  qed
  also have "\<dots> = window_hit n rows s e"
    by (simp add: window_hit_def list_ex_iff lo_def hi_def)
  finally show ?thesis using M by simp
qed

subsection \<open>The output for an integer chunk length\<close>

lemma chunk_window_closed:
  "chunk_window path file clip_len sr bird cl (raster_all n 1000 rows) k =
     (if slice_index n (py_int (chunk_end cl n k)) \<le> slice_index n (py_int (chunk_start cl k))
      then Inl ValueError
      else if window_hit n rows (py_int (chunk_start cl k)) (py_int (chunk_end cl n k))
           then Inr [chunk_row path file clip_len sr bird cl k]
           else Inr [])"
proof (cases "get_slice (raster_all n 1000 rows) (py_int (chunk_start cl k))
                 (py_int (chunk_end cl n k)) = []")
  case True
  then show ?thesis
    using True get_slice_empty_iff[of "raster_all n 1000 rows"]
    by (simp add: chunk_window_def Let_def length_raster_all)
next
  case False
  then have "\<not> slice_index n (py_int (chunk_end cl n k)) \<le> slice_index n (py_int (chunk_start cl k))"
    using get_slice_empty_iff[of "raster_all n 1000 rows"] by (simp add: length_raster_all)
  then show ?thesis
    using False window_test[OF False]
    by (simp add: chunk_window_def Let_def length_raster_all)
qed

lemma collect_results_map_Inr: "collect_results (map (\<lambda>x. Inr (f x)) xs) = Inr (map f xs)"
  by (induction xs) simp_all

lemma concat_results_map_Inr:
  "concat_results (map (\<lambda>x. Inr (f x)) xs) = Inr (concat (map f xs))"
  by (simp add: concat_results_def collect_results_map_Inr)

lemma concat_map_if: "concat (map (\<lambda>k. if P k then [f k] else []) ks) = map f (filter P ks)"
  by (induction ks) simp_all

lemma window_in_clip:
  assumes "0 < c" "of_nat c \<le> clip_len" "k < nat (py_int clip_len div int c)"
  shows "(k + 1) * c * 1000 \<le> nat (py_int (clip_len * 1000))"
proof -
  have pos: "0 \<le> clip_len" using assms(2) by (meson of_nat_0_le_iff order_trans)
  then have pi: "py_int clip_len = \<lfloor>clip_len\<rfloor>" by (simp add: py_int_def)
  have "int (k + 1) \<le> \<lfloor>clip_len\<rfloor> div int c" using assms(3) pi by simp
  then have "int (k + 1) * int c \<le> \<lfloor>clip_len\<rfloor> div int c * int c"
    by (rule mult_right_mono) simp
  also have "\<dots> \<le> \<lfloor>clip_len\<rfloor>"
  proof -
    have "\<lfloor>clip_len\<rfloor> div int c * int c + \<lfloor>clip_len\<rfloor> mod int c = \<lfloor>clip_len\<rfloor>"
      by (rule div_mult_mod_eq)
    moreover have "0 \<le> \<lfloor>clip_len\<rfloor> mod int c" using assms(1) by simp
    ultimately show ?thesis by linarith
  qed
  finally have "of_int (int (k + 1) * int c) \<le> clip_len"
    by (simp add: le_floor_iff del: of_nat_add of_nat_mult)
  then have "of_int (int (k + 1) * int c) * 1000 \<le> clip_len * 1000"
    by (rule mult_right_mono) simp
  moreover have "(of_int (int ((k + 1) * c * 1000)) :: rat) = of_int (int (k + 1) * int c) * 1000"
    by (simp add: algebra_simps)
  ultimately have "of_int (int ((k + 1) * c * 1000)) \<le> clip_len * 1000" by (simp only:)
  then have "int ((k + 1) * c * 1000) \<le> \<lfloor>clip_len * 1000\<rfloor>"
    by (simp only: le_floor_iff)
  moreover have "py_int (clip_len * 1000) = \<lfloor>clip_len * 1000\<rfloor>"
    using pos by (simp add: py_int_def)
  ultimately have "int ((k + 1) * c * 1000) \<le> py_int (clip_len * 1000)" by (simp only:)
  from nat_mono[OF this] show ?thesis by (simp only: nat_int)
qed

lemma concat_results_map_if:
  "concat_results (map (\<lambda>k. if P k then Inr [f k] else Inr []) ks) = Inr (map f (filter P ks))"
proof -
  have eq: "map (\<lambda>k. if P k then Inr [f k] else Inr []) ks
        = map (\<lambda>k. Inr (if P k then [f k] else [])) ks"
    by (rule map_cong) simp_all
  show ?thesis unfolding eq concat_results_map_Inr concat_map_if ..
qed

lemma chunk_window_integer:
  assumes "0 < c" "of_nat c \<le> clip_len" "k < nat (py_int clip_len div int c)"
    and n: "n = nat (py_int (clip_len * 1000))"
  shows "chunk_window path file clip_len sr bird (of_nat c) (raster_all n 1000 rows) k =
     (if window_hit n rows (int (k * c * 1000)) (int ((k + 1) * c * 1000))
      then Inr [chunk_row path file clip_len sr bird (of_nat c) k] else Inr [])"
proof -
  have le: "(k + 1) * c * 1000 \<le> n"
    unfolding n by (rule window_in_clip[OF assms(1-3)])
  have s: "chunk_start (of_nat c) k = of_nat (k * c * 1000)"
    by (simp add: chunk_start_def)
  have "(of_nat ((k + 1) * c * 1000) :: rat) \<le> of_nat n" using le by (simp only: of_nat_le_iff)
  moreover have "(of_nat k + 1) * of_nat c * 1000 = (of_nat ((k + 1) * c * 1000) :: rat)"
    by (simp add: algebra_simps)
  ultimately have e: "chunk_end (of_nat c) n k = of_nat ((k + 1) * c * 1000)"
    by (simp only: chunk_end_def min_absorb1)
  have ps: "py_int (chunk_start (of_nat c) k) = int (k * c * 1000)"
    unfolding s by (rule py_int_of_nat)
  have pe: "py_int (chunk_end (of_nat c) n k) = int ((k + 1) * c * 1000)"
    unfolding e by (rule py_int_of_nat)
  have lt: "k * c * 1000 < (k + 1) * c * 1000" using assms(1) by simp
  have si: "slice_index n (int (k * c * 1000)) = k * c * 1000"
    "slice_index n (int ((k + 1) * c * 1000)) = (k + 1) * c * 1000"
  proof -
    have "k * c * 1000 \<le> n" using le lt by linarith
    then show "slice_index n (int (k * c * 1000)) = k * c * 1000"
      by (simp only: slice_index_int min_absorb2)
    show "slice_index n (int ((k + 1) * c * 1000)) = (k + 1) * c * 1000"
      using le by (simp only: slice_index_int min_absorb2)
  qed
  show ?thesis
    unfolding chunk_window_closed ps pe si using lt by simp
qed

lemma species_chunks_integer:
  assumes "0 < c" "of_nat c \<le> clip_len"
  shows "species_chunks path file clip_len sr (of_nat c) (nat (py_int (clip_len * 1000)))
           (py_int clip_len div int c) clip_df bird
         = Inr (species_rows path file clip_len sr c clip_df bird)"
proof -
  let ?n = "nat (py_int (clip_len * 1000))"
  let ?rows = "filter (\<lambda>a. MANUAL_ID a = bird) clip_df"
  have eq: "map (chunk_window path file clip_len sr bird (of_nat c) (raster_all ?n 1000 ?rows))
            [0..<nat (py_int clip_len div int c)]
      = map (\<lambda>k. if window_hit ?n ?rows (int (k * c * 1000)) (int ((k + 1) * c * 1000))
               then Inr [chunk_row path file clip_len sr bird (of_nat c) k] else Inr [])
            [0..<nat (py_int clip_len div int c)]"
    by (rule map_cong[OF refl]) (simp add: chunk_window_integer[OF assms _ refl])
  show ?thesis
    unfolding species_chunks_def Let_def species_rows_def eq concat_results_map_if ..
qed

lemma clip_chunks_integer:
  assumes "0 < c" "clip \<in> set (map FILEPATH kaleidoscope_df)"
  shows "clip_chunks kaleidoscope_df (of_nat c) clip = Inr (clip_rows kaleidoscope_df c clip)"
proof -
  let ?clip_df = "filter (\<lambda>a. FILEPATH a = clip) kaleidoscope_df"
  have "?clip_df \<noteq> []" using assms(2) by (auto simp: filter_empty_conv)
  then obtain first rest where f: "?clip_df = first # rest" by (cases ?clip_df) auto
  show ?thesis
  proof (cases "CLIP_LENGTH first < of_nat c")
    case True
    then show ?thesis by (simp add: clip_chunks_def clip_rows_def f Let_def)
  next
    case False
    then have ge: "of_nat c \<le> CLIP_LENGTH first" by simp
    have "(0::rat) \<le> of_nat c" by simp
    then have "0 \<le> CLIP_LENGTH first * 1000" using ge by simp
    then have "0 \<le> py_int (CLIP_LENGTH first * 1000)" by (simp add: py_int_def)
    then have nn: "\<not> py_int (CLIP_LENGTH first * 1000) < 0" by simp
    have z: "py_int (of_nat c) \<noteq> 0" using assms(1) by simp
    have eq: "map (species_chunks (FOLDER first) (IN_FILE first) (CLIP_LENGTH first) (SAMPLE_RATE first)
              (of_nat c) (nat (py_int (CLIP_LENGTH first * 1000)))
              (py_int (CLIP_LENGTH first) div py_int (of_nat c)) ?clip_df)
            (unique (map MANUAL_ID ?clip_df))
        = map (\<lambda>bird. Inr (species_rows (FOLDER first) (IN_FILE first) (CLIP_LENGTH first)
              (SAMPLE_RATE first) c ?clip_df bird)) (unique (map MANUAL_ID ?clip_df))"
      by (rule map_cong[OF refl]) (simp add: species_chunks_integer[OF assms(1) ge])
    have "concat_results (map (species_chunks (FOLDER first) (IN_FILE first) (CLIP_LENGTH first)
              (SAMPLE_RATE first) (of_nat c) (nat (py_int (CLIP_LENGTH first * 1000)))
              (py_int (CLIP_LENGTH first) div py_int (of_nat c)) ?clip_df)
            (unique (map MANUAL_ID ?clip_df)))
        = Inr (concat (map (species_rows (FOLDER first) (IN_FILE first) (CLIP_LENGTH first)
              (SAMPLE_RATE first) c ?clip_df) (unique (map MANUAL_ID ?clip_df))))"
      unfolding eq concat_results_map_Inr ..
    then show ?thesis
      using False nn z by (simp add: clip_chunks_def clip_rows_def Let_def f[symmetric]) (simp add: f)
  qed
qed

lemma annotation_chunker_integer:
  assumes "0 < c"
  shows "annotation_chunker kaleidoscope_df (of_nat c) = Inr (chunked_rows kaleidoscope_df c)"
proof -
  have eq: "map (clip_chunks kaleidoscope_df (of_nat c)) (unique (map FILEPATH kaleidoscope_df))
      = map (\<lambda>clip. Inr (clip_rows kaleidoscope_df c clip)) (unique (map FILEPATH kaleidoscope_df))"
    by (rule map_cong[OF refl]) (simp add: clip_chunks_integer[OF assms] set_unique)
  show ?thesis
    unfolding annotation_chunker_def chunked_rows_def eq concat_results_map_Inr ..
qed

subsection \<open>Tables made of blocks\<close>

lemma unique_acc_append_seen:
  "set xs \<subseteq> set seen \<Longrightarrow> unique_acc seen (xs @ ys) = unique_acc seen ys"
  by (induction xs) simp_all

lemma distinct_unique_acc: "distinct (unique_acc seen xs)"
  by (induction seen xs rule: unique_acc.induct) (auto simp: set_unique_acc)

lemma distinct_unique: "distinct (unique xs)"
  by (simp add: unique_def distinct_unique_acc)

lemma unique_acc_blocks:
  assumes "distinct ks" "\<forall>k\<in>set ks. \<forall>x\<in>set (f k). key x = k" "set seen \<inter> set ks = {}"
  shows "unique_acc seen (map key (concat (map f ks))) = filter (\<lambda>k. f k \<noteq> []) ks"
  using assms
proof (induction ks arbitrary: seen)
  case Nil
  then show ?case by simp
next
  case (Cons k ks)
  have d: "distinct ks" "k \<notin> set ks" using Cons.prems(1) by simp_all
  have keys: "\<forall>k'\<in>set ks. \<forall>x\<in>set (f k'). key x = k'" using Cons.prems(2) by simp
  have kseen: "k \<notin> set seen" using Cons.prems(3) by auto
  show ?case
  proof (cases "f k")
    case Nil
    have "set seen \<inter> set ks = {}" using Cons.prems(3) by auto
    from Cons.IH[OF d(1) keys this] show ?thesis using Nil by simp
  next
    case (Cons x xs)
    have kx: "key x = k" using Cons.prems(2) Cons by simp
    have sub: "set (map key xs) \<subseteq> set (k # seen)"
      using Cons.prems(2) Cons by auto
    have dis: "set (k # seen) \<inter> set ks = {}" using Cons.prems(3) d(2) by auto
    have "unique_acc seen (map key (concat (map f (k # ks))))
        = unique_acc seen (k # (map key xs @ map key (concat (map f ks))))"
      using Cons kx by simp
    also have "\<dots> = k # unique_acc (k # seen) (map key xs @ map key (concat (map f ks)))"
      using kseen by simp
    also have "\<dots> = k # unique_acc (k # seen) (map key (concat (map f ks)))"
      by (simp only: unique_acc_append_seen[OF sub])
    also have "\<dots> = k # filter (\<lambda>k. f k \<noteq> []) ks"
      by (simp only: Cons.IH[OF d(1) keys dis])
    finally show ?thesis using Cons by simp
  qed
qed

lemma unique_blocks:
  assumes "distinct ks" "\<forall>k\<in>set ks. \<forall>x\<in>set (f k). key x = k"
  shows "unique (map key (concat (map f ks))) = filter (\<lambda>k. f k \<noteq> []) ks"
  unfolding unique_def by (rule unique_acc_blocks[OF assms]) simp

lemma filter_blocks:
  assumes "distinct ks" "\<forall>k'\<in>set ks. \<forall>x\<in>set (f k'). key x = k'" "k \<in> set ks"
  shows "filter (\<lambda>x. key x = k) (concat (map f ks)) = f k"
  using assms
proof (induction ks)
  case Nil
  then show ?case by simp
next
  case (Cons k' ks)
  have keys: "\<forall>k'\<in>set ks. \<forall>x\<in>set (f k'). key x = k'" using Cons.prems(2) by simp
  show ?case
  proof (cases "k = k'")
    case True
    have "k \<notin> set ks" using Cons.prems(1) True by simp
    then have "filter (\<lambda>x. key x = k) (concat (map f ks)) = []"
      using keys by (auto simp: filter_empty_conv)
    moreover have "filter (\<lambda>x. key x = k) (f k') = f k'"
      using Cons.prems(2) True by (auto simp: filter_id_conv)
    ultimately show ?thesis using True by simp
  next
    case False
    then have "k \<in> set ks" using Cons.prems(3) by simp
    moreover have "distinct ks" using Cons.prems(1) by simp
    ultimately have "filter (\<lambda>x. key x = k) (concat (map f ks)) = f k"
      using Cons.IH keys by blast
    moreover have "filter (\<lambda>x. key x = k) (f k') = []"
      using Cons.prems(2) False by (auto simp: filter_empty_conv)
    ultimately show ?thesis by simp
  qed
qed

lemma concat_filter_nonempty: "concat (map f (filter (\<lambda>k. f k \<noteq> []) ks)) = concat (map f ks)"
  by (induction ks) simp_all

end
